theory Spec2Isabelle
  imports Complex_Main
begin

section \<open>The WetSpec dashboard script\<close>

text \<open>
  A shallow embedding of the dashboard's client script: the moving average
  (\<open>calculateSMADataset\<close>, \<open>simpleMovingAverage\<close>), the scale breaks
  (\<open>getXBreaks\<close>), the data processing of \<open>updateChart\<close>, and the restart and
  shutdown handlers with their retry loop (\<open>fetchRetry\<close>). The two functions on series
  are given twice: on values, and on a store of objects, where what they write can be seen.
  The definitions come first, the properties after them.
\<close>

subsection \<open>Numbers and dates\<close>

text \<open>
  A JavaScript number is a finite value, one of the two infinities, or NaN. Finite values
  are exact reals here: the rounding of IEEE doubles, overflow to an infinity and the sign
  of zero are outside the model.
\<close>

datatype jsnum = Num real | PInf | NInf | NaN

fun jadd :: "jsnum \<Rightarrow> jsnum \<Rightarrow> jsnum" where
  "jadd (Num a) (Num b) = Num (a + b)"
| "jadd NaN _ = NaN"
| "jadd _ NaN = NaN"
| "jadd PInf NInf = NaN"
| "jadd NInf PInf = NaN"
| "jadd PInf _ = PInf"
| "jadd _ PInf = PInf"
| "jadd NInf _ = NInf"
| "jadd _ NInf = NInf"

fun jneg :: "jsnum \<Rightarrow> jsnum" where
  "jneg (Num a) = Num (- a)"
| "jneg PInf = NInf"
| "jneg NInf = PInf"
| "jneg NaN = NaN"

definition jsub :: "jsnum \<Rightarrow> jsnum \<Rightarrow> jsnum" where
  "jsub a b = jadd a (jneg b)"

text \<open>\<open>a > b\<close>: false as soon as one side is NaN.\<close>

fun jgt :: "jsnum \<Rightarrow> jsnum \<Rightarrow> bool" where
  "jgt NaN _ = False"
| "jgt _ NaN = False"
| "jgt (Num a) (Num b) = (b < a)"
| "jgt PInf PInf = False"
| "jgt PInf _ = True"
| "jgt _ PInf = False"
| "jgt NInf _ = False"
| "jgt _ NInf = True"

text \<open>\<open>sum / numPoints\<close> for a count \<open>numPoints\<close>: division by zero gives NaN or an infinity.\<close>

fun jdiv :: "jsnum \<Rightarrow> nat \<Rightarrow> jsnum" where
  "jdiv (Num a) n =
     (if n = 0 then (if a = 0 then NaN else if 0 < a then PInf else NInf)
      else Num (a / real n))"
| "jdiv PInf n = PInf"
| "jdiv NInf n = NInf"
| "jdiv NaN n = NaN"

text \<open>
  A \<open>Date\<close> holds a time value in milliseconds, an integer of magnitude at most
  \<open>8.64e15\<close>, or is an invalid date. \<open>new Date(v)\<close> clips: a value that is not finite or
  is out of range gives the invalid date, and a fraction is truncated towards zero.
\<close>

datatype jsdate = Date int | InvalidDate

definition maxTime :: int where
  "maxTime = 8640000000000000"

definition trunc :: "real \<Rightarrow> int" where
  "trunc r = (if 0 \<le> r then \<lfloor>r\<rfloor> else \<lceil>r\<rceil>)"

fun newDate :: "jsnum \<Rightarrow> jsdate" where
  "newDate (Num r) = (if \<bar>r\<bar> \<le> real_of_int maxTime then Date (trunc r) else InvalidDate)"
| "newDate _ = InvalidDate"

fun getTime :: "jsdate \<Rightarrow> jsnum" where
  "getTime (Date t) = Num (real_of_int t)"
| "getTime InvalidDate = NaN"

subsection \<open>Data points\<close>

text \<open>A data point \<open>{x: Date, y: number}\<close> of the chart.\<close>

record datum =
  x :: jsdate
  y :: jsnum

datatype error = TypeError | NetworkError

text \<open>
  \<open>dataset[j]\<close>: an index outside the array reads \<open>undefined\<close> (\<open>None\<close>); taking a
  property of \<open>undefined\<close> throws a TypeError.
\<close>

definition elem_at :: "'a list \<Rightarrow> int \<Rightarrow> 'a option" where
  "elem_at xs j = (if 0 \<le> j \<and> j < int (length xs) then Some (xs ! nat j) else None)"

subsection \<open>The moving average\<close>

text \<open>
  \<^verbatim>\<open>
  function simpleMovingAverage(dataset, point, numPoints=5) {
    let sum = 0
    for (let i = 0; i < numPoints; i++) {
      sum += dataset[point - i]['y']
    }
    return sum / numPoints
  }
  \<close>
\<close>

function sma_loop :: "datum list \<Rightarrow> nat \<Rightarrow> nat \<Rightarrow> nat \<Rightarrow> jsnum \<Rightarrow> error + jsnum" where
  "sma_loop dataset point numPoints i tot =
     (if i < numPoints then
        (case elem_at dataset (int point - int i) of
           None \<Rightarrow> Inl TypeError
         | Some d \<Rightarrow> sma_loop dataset point numPoints (i + 1) (jadd tot (y d)))
      else Inr tot)"
  by pat_completeness auto
termination
  by (relation "measure (\<lambda>(dataset, point, numPoints, i, tot). numPoints - i)") auto

declare sma_loop.simps [simp del]

definition simpleMovingAverage :: "datum list \<Rightarrow> nat \<Rightarrow> nat \<Rightarrow> error + jsnum" where
  "simpleMovingAverage dataset point numPoints =
     (case sma_loop dataset point numPoints 0 (Num 0) of
        Inl e \<Rightarrow> Inl e
      | Inr tot \<Rightarrow> Inr (jdiv tot numPoints))"

text \<open>
  \<^verbatim>\<open>
  function calculateSMADataset(dataset) {
    let datasetSMA = []
    dataset.forEach((datum, index) => {
      if (index === 0) {
        datasetSMA.push(datum)
      } else if (index < 12) {
        datasetSMA.push({ x: datum.x, y: simpleMovingAverage(dataset, index, index) })
      } else {
        datasetSMA.push({ x: datum.x, y: simpleMovingAverage(dataset, index, 12) })
      }
    })
    return datasetSMA
  }
  \<close>
  The \<open>forEach\<close> is a loop over the indices; an exception of the callback ends it.
\<close>

function sma_forEach :: "datum list \<Rightarrow> nat \<Rightarrow> datum list \<Rightarrow> error + datum list" where
  "sma_forEach dataset index datasetSMA =
     (if index < length dataset then
        (let d = dataset ! index in
         if index = 0 then sma_forEach dataset (index + 1) (datasetSMA @ [d])
         else if index < 12 then
           (case simpleMovingAverage dataset index index of
              Inl e \<Rightarrow> Inl e
            | Inr v \<Rightarrow> sma_forEach dataset (index + 1) (datasetSMA @ [\<lparr>x = x d, y = v\<rparr>]))
         else
           (case simpleMovingAverage dataset index 12 of
              Inl e \<Rightarrow> Inl e
            | Inr v \<Rightarrow> sma_forEach dataset (index + 1) (datasetSMA @ [\<lparr>x = x d, y = v\<rparr>])))
      else Inr datasetSMA)"
  by pat_completeness auto
termination
  by (relation "measure (\<lambda>(dataset, index, datasetSMA). length dataset - index)") auto

declare sma_forEach.simps [simp del]

definition calculateSMADataset :: "datum list \<Rightarrow> error + datum list" where
  "calculateSMADataset dataset = sma_forEach dataset 0 []"


subsection \<open>Scale breaks\<close>

text \<open>\<^verbatim>\<open>const sampleInterval = (30 * 60) // 30 minutes converted to seconds\<close>\<close>

definition sampleInterval :: nat where
  "sampleInterval = 30 * 60"

text \<open>A custom break object of the chart's x axis.\<close>

record customBreak =
  startValue :: jsdate
  endValue :: jsdate
  type :: string
  spacing :: nat

text \<open>
  \<^verbatim>\<open>
  function getXBreaks(data) {
    const maxInterval = 10 * sampleInterval * 1000
    let customBreaks = []
    let nextDatum
    data.forEach((datum, index) => {
      if (index != data.length - 1) {
        nextDatum = data[index + 1]
        if (nextDatum.x.getTime() - datum.x.getTime() > maxInterval) {
          customBreaks.push({
            startValue: new Date(datum.x.getTime() + (3 * sampleInterval * 1000)),
            endValue: new Date(nextDatum.x.getTime() - (3 * sampleInterval * 1000)),
            type: "wavy",
            spacing: 1
          })
        }
      }
    })
    return customBreaks
  }
  \<close>
  Time values are in milliseconds, \<open>sampleInterval\<close> is in seconds.
\<close>

definition maxInterval :: jsnum where
  "maxInterval = Num (real (10 * sampleInterval * 1000))"

function xbreaks_forEach :: "datum list \<Rightarrow> nat \<Rightarrow> customBreak list \<Rightarrow> error + customBreak list" where
  "xbreaks_forEach data index customBreaks =
     (if index < length data then
        (let d = data ! index in
         if int index \<noteq> int (length data) - 1 then
           (case elem_at data (int index + 1) of
              None \<Rightarrow> Inl TypeError
            | Some nextDatum \<Rightarrow>
                if jgt (jsub (getTime (x nextDatum)) (getTime (x d))) maxInterval then
                  xbreaks_forEach data (index + 1)
                    (customBreaks @
                      [\<lparr>startValue = newDate (jadd (getTime (x d)) (Num (real (3 * sampleInterval * 1000)))),
                        endValue = newDate (jsub (getTime (x nextDatum)) (Num (real (3 * sampleInterval * 1000)))),
                        type = ''wavy'', spacing = 1\<rparr>])
                else xbreaks_forEach data (index + 1) customBreaks)
         else xbreaks_forEach data (index + 1) customBreaks)
      else Inr customBreaks)"
  by pat_completeness auto
termination
  by (relation "measure (\<lambda>(data, index, customBreaks). length data - index)") auto

declare xbreaks_forEach.simps [simp del]

definition getXBreaks :: "datum list \<Rightarrow> error + customBreak list" where
  "getXBreaks data = xbreaks_forEach data 0 []"

subsection \<open>Objects in a store\<close>

text \<open>
  To see what the two functions write, the same code on a store of objects: an array holds
  references, a data point holds a reference to its \<open>Date\<close> and its number, a break holds
  references to its two dates. An address is an index of the store and a new object goes
  to its end. A property read from something that has not that shape throws a TypeError.
\<close>

type_synonym addr = nat

datatype obj =
  DateObj jsdate
  | DatumObj addr jsnum
  | ArrayObj "addr list"
  | BreakObj addr addr string nat

type_synonym store = "obj list"

definition lookup :: "store \<Rightarrow> addr \<Rightarrow> obj option" where
  "lookup h a = (if a < length h then Some (h ! a) else None)"

definition alloc :: "obj \<Rightarrow> store \<Rightarrow> store \<times> addr" where
  "alloc ob h = (h @ [ob], length h)"

text \<open>\<open>array.length\<close>, \<open>array[j]\<close>, \<open>array.push(r)\<close>, \<open>datum.x\<close>, \<open>datum.y\<close>, \<open>date.getTime()\<close>.\<close>

definition array_length :: "store \<Rightarrow> addr \<Rightarrow> error + nat" where
  "array_length h a = (case lookup h a of Some (ArrayObj rs) \<Rightarrow> Inr (length rs) | _ \<Rightarrow> Inl TypeError)"

definition array_get :: "store \<Rightarrow> addr \<Rightarrow> int \<Rightarrow> error + addr option" where
  "array_get h a j = (case lookup h a of Some (ArrayObj rs) \<Rightarrow> Inr (elem_at rs j) | _ \<Rightarrow> Inl TypeError)"

definition push :: "store \<Rightarrow> addr \<Rightarrow> addr \<Rightarrow> error + store" where
  "push h a r =
     (case lookup h a of Some (ArrayObj rs) \<Rightarrow> Inr (h[a := ArrayObj (rs @ [r])]) | _ \<Rightarrow> Inl TypeError)"

definition get_x :: "store \<Rightarrow> addr option \<Rightarrow> error + addr" where
  "get_x h r =
     (case r of
        None \<Rightarrow> Inl TypeError
      | Some a \<Rightarrow> (case lookup h a of Some (DatumObj xa yv) \<Rightarrow> Inr xa | _ \<Rightarrow> Inl TypeError))"

definition get_y :: "store \<Rightarrow> addr option \<Rightarrow> error + jsnum" where
  "get_y h r =
     (case r of
        None \<Rightarrow> Inl TypeError
      | Some a \<Rightarrow> (case lookup h a of Some (DatumObj xa yv) \<Rightarrow> Inr yv | _ \<Rightarrow> Inl TypeError))"

definition getTime_h :: "store \<Rightarrow> addr \<Rightarrow> error + jsnum" where
  "getTime_h h a = (case lookup h a of Some (DateObj d) \<Rightarrow> Inr (getTime d) | _ \<Rightarrow> Inl TypeError)"

text \<open>\<open>simpleMovingAverage\<close> on the store: it only reads.\<close>

function sma_loop_h :: "store \<Rightarrow> addr \<Rightarrow> nat \<Rightarrow> nat \<Rightarrow> nat \<Rightarrow> jsnum \<Rightarrow> error + jsnum" where
  "sma_loop_h h dataset point numPoints i tot =
     (if i < numPoints then
        (case array_get h dataset (int point - int i) of
           Inl e \<Rightarrow> Inl e
         | Inr r \<Rightarrow>
             (case get_y h r of
                Inl e \<Rightarrow> Inl e
              | Inr v \<Rightarrow> sma_loop_h h dataset point numPoints (i + 1) (jadd tot v)))
      else Inr tot)"
  by pat_completeness auto
termination
  by (relation "measure (\<lambda>(h, dataset, point, numPoints, i, tot). numPoints - i)") auto

declare sma_loop_h.simps [simp del]

definition simpleMovingAverage_h :: "store \<Rightarrow> addr \<Rightarrow> nat \<Rightarrow> nat \<Rightarrow> error + jsnum" where
  "simpleMovingAverage_h h dataset point numPoints =
     (case sma_loop_h h dataset point numPoints 0 (Num 0) of
        Inl e \<Rightarrow> Inl e
      | Inr tot \<Rightarrow> Inr (jdiv tot numPoints))"

text \<open>
  The callback of the \<open>forEach\<close> in \<open>calculateSMADataset\<close>: at index 0 it pushes the
  reference of the input's point, otherwise it makes a new point that shares the input's
  \<open>Date\<close> and pushes its reference.
\<close>

definition sma_callback_h :: "store \<Rightarrow> addr \<Rightarrow> addr \<Rightarrow> addr \<Rightarrow> nat \<Rightarrow> error + store" where
  "sma_callback_h h dataset datasetSMA d index =
     (if index = 0 then push h datasetSMA d
      else
        (case simpleMovingAverage_h h dataset index (if index < 12 then index else 12) of
           Inl e \<Rightarrow> Inl e
         | Inr v \<Rightarrow>
             (case get_x h (Some d) of
                Inl e \<Rightarrow> Inl e
              | Inr xa \<Rightarrow> (let (h1, nd) = alloc (DatumObj xa v) h in push h1 datasetSMA nd))))"

text \<open>
  \<open>forEach\<close> reads the length of the array once, before the first call, and skips an index
  that the array no longer has.
\<close>

function sma_forEach_h :: "store \<Rightarrow> addr \<Rightarrow> nat \<Rightarrow> nat \<Rightarrow> addr \<Rightarrow> error + store" where
  "sma_forEach_h h dataset len index datasetSMA =
     (if index < len then
        (case array_get h dataset (int index) of
           Inl e \<Rightarrow> Inl e
         | Inr None \<Rightarrow> sma_forEach_h h dataset len (index + 1) datasetSMA
         | Inr (Some d) \<Rightarrow>
             (case sma_callback_h h dataset datasetSMA d index of
                Inl e \<Rightarrow> Inl e
              | Inr h' \<Rightarrow> sma_forEach_h h' dataset len (index + 1) datasetSMA))
      else Inr h)"
  by pat_completeness auto
termination
  by (relation "measure (\<lambda>(h, dataset, len, index, datasetSMA). len - index)") auto

declare sma_forEach_h.simps [simp del]

definition calculateSMADataset_h :: "store \<Rightarrow> addr \<Rightarrow> error + store \<times> addr" where
  "calculateSMADataset_h h dataset =
     (let (h0, datasetSMA) = alloc (ArrayObj []) h in
      case array_length h0 dataset of
        Inl e \<Rightarrow> Inl e
      | Inr len \<Rightarrow>
          (case sma_forEach_h h0 dataset len 0 datasetSMA of
             Inl e \<Rightarrow> Inl e
           | Inr h' \<Rightarrow> Inr (h', datasetSMA)))"

text \<open>
  The callback of the \<open>forEach\<close> in \<open>getXBreaks\<close>: for a gap it makes two dates and a break
  and pushes the reference of the break.
\<close>

definition xbreaks_callback_h :: "store \<Rightarrow> addr \<Rightarrow> addr \<Rightarrow> addr \<Rightarrow> nat \<Rightarrow> error + store" where
  "xbreaks_callback_h h data customBreaks d index =
     (case array_length h data of
        Inl e \<Rightarrow> Inl e
      | Inr n \<Rightarrow>
          if int index \<noteq> int n - 1 then
            (case array_get h data (int index + 1) of
               Inl e \<Rightarrow> Inl e
             | Inr nextDatum \<Rightarrow>
                 (case get_x h nextDatum of
                    Inl e \<Rightarrow> Inl e
                  | Inr nx \<Rightarrow>
                      (case getTime_h h nx of
                         Inl e \<Rightarrow> Inl e
                       | Inr tn \<Rightarrow>
                           (case get_x h (Some d) of
                              Inl e \<Rightarrow> Inl e
                            | Inr dx \<Rightarrow>
                                (case getTime_h h dx of
                                   Inl e \<Rightarrow> Inl e
                                 | Inr td \<Rightarrow>
                                     if jgt (jsub tn td) maxInterval then
                                       (let (h1, s) = alloc (DateObj (newDate
                                               (jadd td (Num (real (3 * sampleInterval * 1000)))))) h;
                                            (h2, e) = alloc (DateObj (newDate
                                               (jsub tn (Num (real (3 * sampleInterval * 1000)))))) h1;
                                            (h3, b) = alloc (BreakObj s e ''wavy'' 1) h2
                                        in push h3 customBreaks b)
                                     else Inr h)))))
          else Inr h)"

function xbreaks_forEach_h :: "store \<Rightarrow> addr \<Rightarrow> nat \<Rightarrow> nat \<Rightarrow> addr \<Rightarrow> error + store" where
  "xbreaks_forEach_h h data len index customBreaks =
     (if index < len then
        (case array_get h data (int index) of
           Inl e \<Rightarrow> Inl e
         | Inr None \<Rightarrow> xbreaks_forEach_h h data len (index + 1) customBreaks
         | Inr (Some d) \<Rightarrow>
             (case xbreaks_callback_h h data customBreaks d index of
                Inl e \<Rightarrow> Inl e
              | Inr h' \<Rightarrow> xbreaks_forEach_h h' data len (index + 1) customBreaks))
      else Inr h)"
  by pat_completeness auto
termination
  by (relation "measure (\<lambda>(h, data, len, index, customBreaks). len - index)") auto

declare xbreaks_forEach_h.simps [simp del]

definition getXBreaks_h :: "store \<Rightarrow> addr \<Rightarrow> error + store \<times> addr" where
  "getXBreaks_h h data =
     (let (h0, customBreaks) = alloc (ArrayObj []) h in
      case array_length h0 data of
        Inl e \<Rightarrow> Inl e
      | Inr len \<Rightarrow>
          (case xbreaks_forEach_h h0 data len 0 customBreaks of
             Inl e \<Rightarrow> Inl e
           | Inr h' \<Rightarrow> Inr (h', customBreaks)))"

subsection \<open>Parsing the readings\<close>

text \<open>
  The two library functions that \<open>updateChart\<close> applies to the fields of a reading, on
  strings of ASCII characters and with the exact value of the numeral in place of the
  nearest double.
\<close>

definition isWhiteSpace :: "char \<Rightarrow> bool" where
  "isWhiteSpace c = (c \<in> set [CHR 0x09, CHR 0x0A, CHR 0x0B, CHR 0x0C, CHR 0x0D, CHR '' ''])"

definition isDigit :: "char \<Rightarrow> bool" where
  "isDigit c = (c \<in> set ''0123456789'')"

definition isHexDigit :: "char \<Rightarrow> bool" where
  "isHexDigit c = (c \<in> set ''0123456789abcdefABCDEF'')"

definition digitVal :: "char \<Rightarrow> nat" where
  "digitVal c =
     (if c \<in> set ''abcdef'' then of_char c - 87
      else if c \<in> set ''ABCDEF'' then of_char c - 55
      else of_char c - 48)"

definition radixVal :: "nat \<Rightarrow> string \<Rightarrow> nat" where
  "radixVal R z = foldl (\<lambda>a c. R * a + digitVal c) 0 z"

text \<open>An optional sign at the head of a string: the sign and the rest.\<close>

definition signOf :: "string \<Rightarrow> real \<times> string" where
  "signOf s =
     (case s of
        [] \<Rightarrow> (1, s)
      | c # r \<Rightarrow> if c = CHR ''-'' then (- 1, r) else if c = CHR ''+'' then (1, r) else (1, s))"

definition pow10 :: "int \<Rightarrow> real" where
  "pow10 e = (if 0 \<le> e then 10 ^ nat e else 1 / 10 ^ nat (- e))"

text \<open>
  The value of an exponent part (\<open>e\<close> or \<open>E\<close>, an optional sign, at least one digit) at
  the head of a string, 0 when there is none.
\<close>

definition exponentPart :: "string \<Rightarrow> int" where
  "exponentPart s =
     (case s of
        [] \<Rightarrow> 0
      | c # r \<Rightarrow>
          if c = CHR ''e'' \<or> c = CHR ''E'' then
            (let (sgn, u) = signOf r; z = takeWhile isDigit u
             in if z = [] then 0 else (if sgn = 1 then 1 else - 1) * int (radixVal 10 z))
          else 0)"

text \<open>
  \<open>parseFloat\<close> skips leading white space and returns the value of the longest prefix that
  is a decimal literal (an optional sign, then \<open>Infinity\<close> or digits with an optional
  fraction and exponent), NaN when there is no such prefix.
\<close>

definition parseFloat :: "string \<Rightarrow> jsnum" where
  "parseFloat string =
     (let (sgn, u) = signOf (dropWhile isWhiteSpace string) in
      if take 8 u = ''Infinity'' then (if sgn = 1 then PInf else NInf)
      else
        let ip = takeWhile isDigit u;
            r1 = dropWhile isDigit u;
            dot = (r1 \<noteq> [] \<and> hd r1 = CHR ''.'');
            fp = (if dot then takeWhile isDigit (tl r1) else []);
            r2 = (if dot then dropWhile isDigit (tl r1) else r1)
        in if ip = [] \<and> fp = [] then NaN
           else Num (sgn * (real (radixVal 10 ip) + real (radixVal 10 fp) / 10 ^ length fp)
                      * pow10 (exponentPart r2)))"

text \<open>
  \<open>parseInt\<close> without a radix skips leading white space, takes an optional sign, reads the
  digits that follow in radix 16 after a prefix \<open>0x\<close> or \<open>0X\<close> and in radix 10
  otherwise, and stops at the first other character; NaN when there is no digit.
\<close>

definition parseInt :: "string \<Rightarrow> jsnum" where
  "parseInt string =
     (let (sgn, u) = signOf (dropWhile isWhiteSpace string) in
      if take 2 u = ''0x'' \<or> take 2 u = ''0X'' then
        (let z = takeWhile isHexDigit (drop 2 u)
         in if z = [] then NaN else Num (sgn * real (radixVal 16 z)))
      else
        (let z = takeWhile isDigit u
         in if z = [] then NaN else Num (sgn * real (radixVal 10 z))))"

subsection \<open>Updating the chart\<close>

text \<open>A record of \<open>data.json\<close>, and the part of the chart that \<open>updateChart\<close> writes.\<close>

record reading =
  time :: string
  temp :: string
  humidity :: string

record chart =
  customBreaks :: "customBreak list option"
  dataPoints :: "datum list option list"
  renders :: nat

text \<open>
  \<^verbatim>\<open>
  function updateChart() {
    let tempData = []
    let humidityData = []
    $.getJSON("data.json", (data) => {
      $.each(data, (key, value) => {
        tempData.push({ x: new Date(value.time), y: parseFloat(value.temp) })
        humidityData.push({ x: new Date(value.time), y: parseInt(value.humidity) })
      })
      let tempSMA = calculateSMADataset(tempData)
      let humiditySMA = calculateSMADataset(humidityData)
      chart.options.axisX.scaleBreaks.customBreaks = getXBreaks(tempData, sampleInterval)
      chart.options.data[0].dataPoints = tempData
      chart.options.data[1].dataPoints = humidityData
      chart.options.data[2].dataPoints = tempSMA
      chart.options.data[3].dataPoints = humiditySMA
      chart.render()
    })
  }
  \<close>
  \<open>updateChart_callback\<close> is the function passed to \<open>$.getJSON\<close>, run on the records
  received. How \<open>new Date\<close> reads a time string is left to the parameter \<open>parseDate\<close>.
  \<open>dataPoints c ! i\<close> stands for \<open>chart.options.data[i].dataPoints\<close>; writing to a series
  that the chart does not have throws a TypeError.
\<close>

fun each_reading ::
  "(string \<Rightarrow> jsdate) \<Rightarrow> reading list \<Rightarrow> datum list \<times> datum list \<Rightarrow> datum list \<times> datum list" where
  "each_reading parseDate [] (tempData, humidityData) = (tempData, humidityData)"
| "each_reading parseDate (v # vs) (tempData, humidityData) =
     each_reading parseDate vs
       (tempData @ [\<lparr>x = parseDate (time v), y = parseFloat (temp v)\<rparr>],
        humidityData @ [\<lparr>x = parseDate (time v), y = parseInt (humidity v)\<rparr>])"

definition set_dataPoints :: "chart \<Rightarrow> nat \<Rightarrow> datum list \<Rightarrow> error + chart" where
  "set_dataPoints c i ds =
     (if i < length (dataPoints c) then Inr (c\<lparr>dataPoints := (dataPoints c)[i := Some ds]\<rparr>)
      else Inl TypeError)"

definition bind_err :: "error + 'a \<Rightarrow> ('a \<Rightarrow> error + 'b) \<Rightarrow> error + 'b" where
  "bind_err r f = (case r of Inl e \<Rightarrow> Inl e | Inr v \<Rightarrow> f v)"

definition updateChart_callback ::
  "(string \<Rightarrow> jsdate) \<Rightarrow> chart \<Rightarrow> reading list \<Rightarrow> error + chart" where
  "updateChart_callback parseDate c data =
     (let (tempData, humidityData) = each_reading parseDate data ([], []) in
      bind_err (calculateSMADataset tempData) (\<lambda>tempSMA.
      bind_err (calculateSMADataset humidityData) (\<lambda>humiditySMA.
      bind_err (getXBreaks tempData) (\<lambda>breaks.
      bind_err (set_dataPoints (c\<lparr>customBreaks := Some breaks\<rparr>) 0 tempData) (\<lambda>c0.
      bind_err (set_dataPoints c0 1 humidityData) (\<lambda>c1.
      bind_err (set_dataPoints c1 2 tempSMA) (\<lambda>c2.
      bind_err (set_dataPoints c2 3 humiditySMA) (\<lambda>c3.
      Inr (c3\<lparr>renders := renders c3 + 1\<rparr>)))))))))"

text \<open>The chart as \<open>window.onload\<close> creates it: four series without data points.\<close>

definition newChart :: chart where
  "newChart = \<lparr>customBreaks = None, dataPoints = [None, None, None, None], renders = 0\<rparr>"

subsection \<open>The page and the device\<close>

text \<open>
  The state of the page that the handlers read and write: the display of the chart, of the
  control buttons and of the title (\<open>True\<close> for \<open>block\<close>, \<open>False\<close> for \<open>none\<close>), the
  content of the message element, the delays of the callbacks registered with
  \<open>setInterval\<close> (every one of them calls \<open>updateChart\<close>; the script never clears one),
  whether the click handlers are set, and the requests and waits made so far, in order.
\<close>

datatype effect = Fetch string | GetJSON string | Sleep nat

record page =
  chartContainer :: bool
  controlButton :: bool
  title :: bool
  message :: string
  intervals :: "nat list"
  handlers :: bool
  trace :: "effect list"

text \<open>
  What the device answers: \<open>fetch\<close> rejects on a network failure and resolves with a
  response otherwise; the text of a response may fail to arrive (\<open>None\<close>).
\<close>

datatype response = Response "string option"

datatype fetch_result = Rejected | Resolved response

fun text_of :: "response \<Rightarrow> string option" where
  "text_of (Response body) = body"

definition fetch :: "string \<Rightarrow> page \<Rightarrow> page" where
  "fetch url p = p\<lparr>trace := trace p @ [Fetch url]\<rparr>"

text \<open>\<^verbatim>\<open>function sleep(ms) { return new Promise(resolve => setTimeout(resolve, ms)) }\<close>\<close>

definition sleep :: "nat \<Rightarrow> page \<Rightarrow> page" where
  "sleep ms p = p\<lparr>trace := trace p @ [Sleep ms]\<rparr>"

text \<open>
  At the level of the page \<open>updateChart\<close> issues the request for \<open>data.json\<close>; its
  callback is \<open>updateChart_callback\<close> above.
\<close>

definition updateChart :: "page \<Rightarrow> page" where
  "updateChart p = p\<lparr>trace := trace p @ [GetJSON ''data.json'']\<rparr>"

text \<open>
  \<^verbatim>\<open>
  function hideDashboard(message) {
    $('#chartContainer').css('display', 'none')
    $('.control-button').css('display', 'none')
    $('.title').css('display', 'none')
    $('#message').html(`<p>${message}</p>`)
  }
  \<close>
\<close>

definition hideDashboard :: "string \<Rightarrow> page \<Rightarrow> page" where
  "hideDashboard msg p =
     p\<lparr>chartContainer := False, controlButton := False, title := False,
       message := ''<p>'' @ msg @ ''</p>''\<rparr>"

text \<open>
  \<^verbatim>\<open>
  async function showDashboard(message='') {
    updateChart(chart, sampleInterval)
    $('#chartContainer').css('display', 'block')
    $('.control-button').css('display', 'block')
    $('.title').css('display', 'block')
    setInterval(
      () => { updateChart(chart, sampleInterval) },
      (Math.round(sampleInterval / 4) * 1000)
    )
    if (message !== '') {
      $('#message').html(`<p>${message}</p>`)
      await sleep(3000)
      $('#message').html('')
    }
  }
  \<close>
\<close>

definition refreshDelay :: nat where
  "refreshDelay = nat (round (real sampleInterval / 4)) * 1000"

definition showDashboard :: "string \<Rightarrow> page \<Rightarrow> page" where
  "showDashboard msg p =
     (let p1 = updateChart p;
          p2 = p1\<lparr>chartContainer := True, controlButton := True, title := True\<rparr>;
          p3 = p2\<lparr>intervals := intervals p2 @ [refreshDelay]\<rparr>
      in if msg \<noteq> [] then (sleep 3000 (p3\<lparr>message := ''<p>'' @ msg @ ''</p>''\<rparr>))\<lparr>message := []\<rparr>
         else p3)"

text \<open>
  \<^verbatim>\<open>
  async function fetchRetry(url, options, n=10) {
    try {
      return await fetch(url, options)
    } catch(err) {
      if (n === 1) throw err
      await sleep(5000)
      return await fetchRetry(url, options, n - 1)
    }
  }
  \<close>
  \<open>server k\<close> is the outcome of the request number \<open>k\<close> (from 0). The recursion need not
  end when \<open>n\<close> is not positive, hence the result in \<open>option\<close>.
\<close>

partial_function (option) fetchRetry ::
  "string \<Rightarrow> (nat \<Rightarrow> fetch_result) \<Rightarrow> nat \<Rightarrow> int \<Rightarrow> page \<Rightarrow> (page \<times> (error + response)) option" where
  "fetchRetry url server k n p =
     (case server k of
        Resolved r \<Rightarrow> Some (fetch url p, Inr r)
      | Rejected \<Rightarrow>
          if n = 1 then Some (fetch url p, Inl NetworkError)
          else fetchRetry url server (k + 1) (n - 1) (sleep 5000 (fetch url p)))"

text \<open>
  \<^verbatim>\<open>
  async function restartHandler() {
    response = await fetch('restart')
    message = await response.text()
    hideDashboard(message)
    await sleep(3000) // Make sure we wait for the system to go down
    try {
      response = await fetchRetry('test')
      message = await response.text()
    } catch(err) {
      message = `
  Something went wrong while restarting the WetSpec device. You may need to
  manually reset it, then reload this page.
  `
      hideDashboard(message)
      return
    }
    showDashboard(message)
  }
  \<close>
  A rejection outside the \<open>try\<close> ends the handler where it is. A handler runs here from
  its start to its end; timer callbacks that run while it waits only add requests for
  \<open>data.json\<close> to the trace.
\<close>

definition fatalMessage :: string where
  "fatalMessage = ''\<newline>Something went wrong while restarting the WetSpec device. You may need to\<newline>manually reset it, then reload this page.\<newline>''"

definition restartHandler :: "fetch_result \<Rightarrow> (nat \<Rightarrow> fetch_result) \<Rightarrow> page \<Rightarrow> page option" where
  "restartHandler restart server p =
     (let p1 = fetch ''restart'' p in
      case restart of
        Rejected \<Rightarrow> Some p1
      | Resolved response \<Rightarrow>
          (case text_of response of
             None \<Rightarrow> Some p1
           | Some msg \<Rightarrow>
               (case fetchRetry ''test'' server 0 10 (sleep 3000 (hideDashboard msg p1)) of
                  None \<Rightarrow> None
                | Some (p2, Inl err) \<Rightarrow> Some (hideDashboard fatalMessage p2)
                | Some (p2, Inr response2) \<Rightarrow>
                    (case text_of response2 of
                       None \<Rightarrow> Some (hideDashboard fatalMessage p2)
                     | Some msg2 \<Rightarrow> Some (showDashboard msg2 p2)))))"

text \<open>
  \<^verbatim>\<open>
  async function shutdownHandler() {
    response = await fetch('shutdown')
    message = await response.text()
    hideDashboard(message)
  }
  \<close>
\<close>

definition shutdownHandler :: "fetch_result \<Rightarrow> page \<Rightarrow> page" where
  "shutdownHandler shutdown p =
     (let p1 = fetch ''shutdown'' p in
      case shutdown of
        Rejected \<Rightarrow> p1
      | Resolved response \<Rightarrow>
          (case text_of response of None \<Rightarrow> p1 | Some msg \<Rightarrow> hideDashboard msg p1))"

text \<open>
  \<open>window.onload\<close> creates the chart, calls \<open>showDashboard('Welcome to WetSpec')\<close> and sets
  the click handlers of the two buttons.
\<close>

definition onload :: "page \<Rightarrow> page" where
  "onload p = (showDashboard ''Welcome to WetSpec'' p)\<lparr>handlers := True\<rparr>"

text \<open>A callback registered with \<open>setInterval\<close> fires: it calls \<open>updateChart\<close>.\<close>

definition timerFires :: "nat \<Rightarrow> page \<Rightarrow> page" where
  "timerFires k p = (if k < length (intervals p) then updateChart p else p)"

text \<open>
  The events of the page, each with the answers of the device to the requests it makes, and
  the run of a sequence of events.
\<close>

datatype event =
  Load
  | ClickRestart fetch_result "nat \<Rightarrow> fetch_result"
  | ClickShutdown fetch_result
  | TimerFires nat

fun step :: "event \<Rightarrow> page \<Rightarrow> page option" where
  "step Load p = Some (onload p)"
| "step (ClickRestart restart server) p =
     (if handlers p then restartHandler restart server p else Some p)"
| "step (ClickShutdown shutdown) p =
     (if handlers p then Some (shutdownHandler shutdown p) else Some p)"
| "step (TimerFires k) p = Some (timerFires k p)"

fun run :: "event list \<Rightarrow> page \<Rightarrow> page option" where
  "run [] p = Some p"
| "run (e # es) p = (case step e p of None \<Rightarrow> None | Some p' \<Rightarrow> run es p')"

subsection \<open>Reference notions for the moving average\<close>

text \<open>
  The arithmetic mean of a list of numbers, as the specification uses the word: the sum of
  the values divided by their count. \<open>window dataset lo hi\<close> is the list of the raw values
  at the positions \<open>lo, \<dots>, hi\<close>.
\<close>

fun jsum :: "jsnum list \<Rightarrow> jsnum" where
  "jsum [] = Num 0"
| "jsum (v # vs) = jadd v (jsum vs)"

definition mean :: "jsnum list \<Rightarrow> jsnum" where
  "mean vs = jdiv (jsum vs) (length vs)"

definition window :: "datum list \<Rightarrow> nat \<Rightarrow> nat \<Rightarrow> jsnum list" where
  "window dataset lo hi = map (\<lambda>k. y (dataset ! k)) [lo..<hi + 1]"

text \<open>The smoothed point at position \<open>i\<close>, as the specification describes it.\<close>

definition smoothed_at :: "datum list \<Rightarrow> nat \<Rightarrow> datum" where
  "smoothed_at dataset i =
     (if i = 0 then dataset ! 0
      else if i < 12 then \<lparr>x = x (dataset ! i), y = mean (window dataset 1 i)\<rparr>
      else \<lparr>x = x (dataset ! i), y = mean (window dataset (i - 11) i)\<rparr>)"

subsection \<open>Reference notions for the scale breaks\<close>

text \<open>
  A sample has a timestamp when its \<open>x\<close> is a valid date in the range of time values. A
  series is strictly increasing when every sample has a timestamp and the timestamps
  increase. The breaks of the specification: one for each adjacent pair whose gap exceeds
  ten sample intervals, from three intervals after the first sample to three intervals
  before the second, in the order of the series.
\<close>

fun valid_date :: "jsdate \<Rightarrow> bool" where
  "valid_date (Date t) = (\<bar>t\<bar> \<le> maxTime)"
| "valid_date InvalidDate = False"

fun time_of :: "jsdate \<Rightarrow> int" where
  "time_of (Date t) = t"
| "time_of InvalidDate = 0"

definition timestamp :: "datum \<Rightarrow> int" where
  "timestamp d = time_of (x d)"

definition timestamped :: "datum list \<Rightarrow> bool" where
  "timestamped data = list_all (\<lambda>d. valid_date (x d)) data"

definition strictly_increasing :: "datum list \<Rightarrow> bool" where
  "strictly_increasing data = (timestamped data \<and> sorted_wrt (<) (map timestamp data))"

definition adjacent_pairs :: "'a list \<Rightarrow> ('a \<times> 'a) list" where
  "adjacent_pairs xs = zip xs (tl xs)"

definition big_gap :: "datum \<times> datum \<Rightarrow> bool" where
  "big_gap p = (timestamp (snd p) - timestamp (fst p) > 10 * int sampleInterval * 1000)"

definition break_of :: "datum \<times> datum \<Rightarrow> customBreak" where
  "break_of p =
     \<lparr>startValue = Date (timestamp (fst p) + 3 * int sampleInterval * 1000),
      endValue = Date (timestamp (snd p) - 3 * int sampleInterval * 1000),
      type = ''wavy'', spacing = 1\<rparr>"

definition findBreaks :: "datum list \<Rightarrow> customBreak list" where
  "findBreaks data = map break_of (filter big_gap (adjacent_pairs data))"


subsection \<open>Reference notions for the readings\<close>


definition decimal :: "string \<Rightarrow> string \<Rightarrow> string \<Rightarrow> string" where
  "decimal sg ip fp = sg @ ip @ (if fp = [] then [] else CHR ''.'' # fp)"

definition decimal_parts :: "string \<Rightarrow> string \<Rightarrow> string \<Rightarrow> bool" where
  "decimal_parts sg ip fp =
     (sg \<in> set ['''', ''-'', ''+''] \<and> ip \<noteq> [] \<and> list_all isDigit ip \<and> list_all isDigit fp)"


definition decimal_string :: "string \<Rightarrow> bool" where
  "decimal_string s =
     (let u = snd (signOf s); ip = takeWhile isDigit u; r = dropWhile isDigit u
      in ip \<noteq> [] \<and> (r = [] \<or> (hd r = CHR ''.'' \<and> tl r \<noteq> [] \<and> list_all isDigit (tl r))))"

text \<open>The raw series that the callback of \<open>updateChart\<close> builds from the records.\<close>

definition tempData_of :: "(string \<Rightarrow> jsdate) \<Rightarrow> reading list \<Rightarrow> datum list" where
  "tempData_of parseDate data = map (\<lambda>v. \<lparr>x = parseDate (time v), y = parseFloat (temp v)\<rparr>) data"

definition humidityData_of :: "(string \<Rightarrow> jsdate) \<Rightarrow> reading list \<Rightarrow> datum list" where
  "humidityData_of parseDate data =
     map (\<lambda>v. \<lparr>x = parseDate (time v), y = parseInt (humidity v)\<rparr>) data"

subsection \<open>Reference notions for the lifecycle\<close>

text \<open>
  The script keeps no lifecycle state; the state \<open>Running\<close> of the specification is the
  page with chart, controls and title displayed. \<open>polls k\<close> is the trace of \<open>k\<close> failed
  liveness requests, each followed by a wait of five seconds, and one more request.
\<close>

definition dashboard_shown :: "page \<Rightarrow> bool" where
  "dashboard_shown p = (chartContainer p \<and> controlButton p \<and> title p)"

definition dashboard_hidden :: "page \<Rightarrow> bool" where
  "dashboard_hidden p = (\<not> chartContainer p \<and> \<not> controlButton p \<and> \<not> title p)"

definition polls :: "nat \<Rightarrow> effect list" where
  "polls k = concat (replicate k [Fetch ''test'', Sleep 5000]) @ [Fetch ''test'']"

definition attempts :: "effect list \<Rightarrow> nat" where
  "attempts es = length (filter (\<lambda>e. e = Fetch ''test'') es)"


subsection \<open>Reading values back from the store\<close>

text \<open>
  The series, or the list of breaks, that an address of the store stands for; \<open>None\<close> when
  the objects there have not the shape of one.
\<close>

definition read_date :: "store \<Rightarrow> addr \<Rightarrow> jsdate option" where
  "read_date h a = (case lookup h a of Some (DateObj d) \<Rightarrow> Some d | _ \<Rightarrow> None)"

definition read_datum :: "store \<Rightarrow> addr \<Rightarrow> datum option" where
  "read_datum h a =
     (case lookup h a of
        Some (DatumObj xa yv) \<Rightarrow>
          (case read_date h xa of Some d \<Rightarrow> Some \<lparr>x = d, y = yv\<rparr> | None \<Rightarrow> None)
      | _ \<Rightarrow> None)"

definition read_break :: "store \<Rightarrow> addr \<Rightarrow> customBreak option" where
  "read_break h a =
     (case lookup h a of
        Some (BreakObj s e t sp) \<Rightarrow>
          (case (read_date h s, read_date h e) of
             (Some ds, Some de) \<Rightarrow> Some \<lparr>startValue = ds, endValue = de, type = t, spacing = sp\<rparr>
           | _ \<Rightarrow> None)
      | _ \<Rightarrow> None)"

fun all_some :: "'a option list \<Rightarrow> 'a list option" where
  "all_some [] = Some []"
| "all_some (None # vs) = None"
| "all_some (Some v # vs) = (case all_some vs of None \<Rightarrow> None | Some ws \<Rightarrow> Some (v # ws))"

definition read_series :: "store \<Rightarrow> addr \<Rightarrow> datum list option" where
  "read_series h a =
     (case lookup h a of Some (ArrayObj rs) \<Rightarrow> all_some (map (read_datum h) rs) | _ \<Rightarrow> None)"

definition read_breaks :: "store \<Rightarrow> addr \<Rightarrow> customBreak list option" where
  "read_breaks h a =
     (case lookup h a of Some (ArrayObj rs) \<Rightarrow> all_some (map (read_break h) rs) | _ \<Rightarrow> None)"

text \<open>
  The breaks that one step of the loop of \<open>getXBreaks\<close> adds at an index: none, or the one
  break of the pair that starts there.
\<close>


definition break_step :: "datum list \<Rightarrow> nat \<Rightarrow> customBreak list" where
  "break_step ds index =
     (if index + 1 < length ds \<and>
         jgt (jsub (getTime (x (ds ! (index + 1)))) (getTime (x (ds ! index)))) maxInterval
      then [\<lparr>startValue = newDate (jadd (getTime (x (ds ! index)))
                                        (Num (real (3 * sampleInterval * 1000)))),
              endValue = newDate (jsub (getTime (x (ds ! (index + 1))))
                                       (Num (real (3 * sampleInterval * 1000)))),
              type = ''wavy'', spacing = 1\<rparr>]
      else [])"

subsection \<open>Example data\<close>

text \<open>Readings every half hour with the values \<open>50 + 2k\<close>, \<open>n\<close> of them.\<close>

definition ramp :: "nat \<Rightarrow> datum list" where
  "ramp n = map (\<lambda>k. \<lparr>x = Date (1800000 * int k), y = Num (50 + 2 * real k)\<rparr>) [0..<n]"

text \<open>Two readings eleven sample intervals apart.\<close>

definition gap11 :: "datum list" where
  "gap11 = [\<lparr>x = Date 0, y = Num 50\<rparr>, \<lparr>x = Date 19800000, y = Num 52\<rparr>]"

text \<open>
  Readings for the examples: one whose temperature starts with a numeral and goes on with
  letters, one whose fields hold no numeral, one with plain decimals. \<open>epoch\<close> reads
  every time string as the time value 0.
\<close>

definition epoch :: "string \<Rightarrow> jsdate" where
  "epoch s = Date 0"

definition prefixed_reading :: reading where
  "prefixed_reading = \<lparr>time = ''2021-04-01T08:00'', temp = ''12abc'', humidity = ''40''\<rparr>"

definition failed_reading :: reading where
  "failed_reading = \<lparr>time = ''2021-04-01T08:30'', temp = ''n/a'', humidity = ''--''\<rparr>"

definition fine_reading :: reading where
  "fine_reading = \<lparr>time = ''2021-04-01T09:00'', temp = ''72.5'', humidity = ''45.7''\<rparr>"

text \<open>
  A page before \<open>window.onload\<close>, the acknowledgements of the server, and three devices:
  one that answers at once, one that answers the tenth request, one that never answers.
\<close>

definition page0 :: page where
  "page0 = \<lparr>chartContainer = False, controlButton = False, title = False, message = [],
            intervals = [], handlers = False, trace = []\<rparr>"

definition restartAck :: fetch_result where
  "restartAck = Resolved (Response (Some ''WetSpec is restarting. Please wait...''))"

definition shutdownAck :: fetch_result where
  "shutdownAck = Resolved (Response (Some ''WetSpec is shutting down. Goodbye!''))"


definition slow :: "nat \<Rightarrow> fetch_result" where
  "slow k = (if k < 9 then Rejected else Resolved (Response (Some ''Welcome to WetSpec.'')))"

definition dead :: "nat \<Rightarrow> fetch_result" where
  "dead k = Rejected"

text \<open>
  A store with the two readings of \<open>gap11\<close>: their dates and points, and at address 4 the
  array of the two points.
\<close>


definition store0 :: store where
  "store0 = [DateObj (Date 0), DatumObj 0 (Num 50), DateObj (Date 19800000), DatumObj 2 (Num 52),
             ArrayObj [1, 3]]"

section \<open>Properties of the moving average\<close>

lemma jadd_commute: "jadd a b = jadd b a"
  by (cases a; cases b) simp_all

lemma jadd_assoc: "jadd (jadd a b) c = jadd a (jadd b c)"
  by (cases a; cases b; cases c) simp_all

lemma jadd_zero [simp]: "jadd (Num 0) a = a" "jadd a (Num 0) = a"
  by (cases a; simp)+

lemma jsum_append: "jsum (us @ vs) = jadd (jsum us) (jsum vs)"
  by (induction us) (simp_all add: jadd_assoc)




lemma elem_at_in: "k < length xs \<Longrightarrow> elem_at xs (int k) = Some (xs ! k)"
  by (simp add: elem_at_def)

text \<open>The loop of \<open>simpleMovingAverage\<close> adds the values of the positions it has left.\<close>

lemma sma_loop_sum:
  "i \<le> numPoints \<Longrightarrow> numPoints \<le> point + 1 \<Longrightarrow> point < length dataset \<Longrightarrow>
   sma_loop dataset point numPoints i tot =
     Inr (jadd tot (jsum (map (\<lambda>k. y (dataset ! k)) [point + 1 - numPoints..<point + 1 - i])))"
proof (induction dataset point numPoints i tot rule: sma_loop.induct)
  case (1 dataset point numPoints i tot)
  show ?case
  proof (cases "i < numPoints")
    case False
    with "1.prems" have "i = numPoints" by simp
    then show ?thesis
      using "1.prems" by (simp add: sma_loop.simps[of dataset point numPoints numPoints])
  next
    case True
    with "1.prems" have le: "i \<le> point" and lt: "point - i < length dataset" by simp_all
    then have e: "elem_at dataset (int point - int i) = Some (dataset ! (point - i))"
      using elem_at_in[of "point - i" dataset] by (simp add: of_nat_diff)
    have split: "[point + 1 - numPoints..<point + 1 - i]
                 = [point + 1 - numPoints..<point + 1 - (i + 1)] @ [point - i]"
    proof -
      have "point + 1 - i = Suc (point - i)" using le by simp
      moreover have "point + 1 - numPoints \<le> point - i" using True "1.prems" by simp
      ultimately show ?thesis by simp
    qed
    have "sma_loop dataset point numPoints i tot
          = sma_loop dataset point numPoints (i + 1) (jadd tot (y (dataset ! (point - i))))"
      using True e by (subst sma_loop.simps) simp
    also have "\<dots> = Inr (jadd (jadd tot (y (dataset ! (point - i))))
        (jsum (map (\<lambda>k. y (dataset ! k)) [point + 1 - numPoints..<point + 1 - (i + 1)])))"
      using "1.IH"[OF True e] True "1.prems" by simp
    also have "\<dots> = Inr (jadd tot
        (jsum (map (\<lambda>k. y (dataset ! k)) [point + 1 - numPoints..<point + 1 - i])))"
      unfolding split by (simp add: jsum_append jadd_assoc jadd_commute)
    finally show ?thesis .
  qed
qed

lemma simpleMovingAverage_mean:
  assumes "numPoints \<le> point + 1" "point < length dataset"
  shows "simpleMovingAverage dataset point numPoints
           = Inr (mean (window dataset (point + 1 - numPoints) point))"
proof -
  have len: "length (window dataset (point + 1 - numPoints) point) = numPoints"
    using assms unfolding window_def length_map length_upt by arith
  have "sma_loop dataset point numPoints 0 (Num 0)
        = Inr (jsum (window dataset (point + 1 - numPoints) point))"
    using sma_loop_sum[of 0 numPoints point dataset "Num 0"] assms
    by (simp add: window_def del: upt_Suc)
  then show ?thesis
    using len by (simp add: simpleMovingAverage_def mean_def)
qed

text \<open>The \<open>forEach\<close> of \<open>calculateSMADataset\<close> never throws and appends one point per index.\<close>

lemma sma_forEach_map:
  "sma_forEach dataset index datasetSMA
     = Inr (datasetSMA @ map (smoothed_at dataset) [index..<length dataset])"
proof (induction dataset index datasetSMA rule: sma_forEach.induct)
  case (1 dataset index datasetSMA)
  show ?case
  proof (cases "index < length dataset")
    case False
    then show ?thesis by (subst sma_forEach.simps) simp
  next
    case True
    then have upt: "[index..<length dataset] = index # [index + 1..<length dataset]"
      by (simp add: upt_conv_Cons)
    consider (zero) "index = 0" | (grow) "0 < index" "index < 12" | (full) "12 \<le> index"
      by linarith
    then show ?thesis
    proof cases
      case zero
      then show ?thesis
        using True "1.IH"(1)[OF True refl] upt
        by (subst sma_forEach.simps) (simp add: smoothed_at_def)
    next
      case grow
      have m: "simpleMovingAverage dataset index index = Inr (mean (window dataset 1 index))"
        using simpleMovingAverage_mean[of index index dataset] True by simp
      show ?thesis
        using True grow m "1.IH"(2)[OF True refl _ _ m] upt
        by (subst sma_forEach.simps) (simp add: smoothed_at_def)
    next
      case full
      have m: "simpleMovingAverage dataset index 12
                 = Inr (mean (window dataset (index - 11) index))"
        using simpleMovingAverage_mean[of 12 index dataset] True full by simp
      show ?thesis
        using True full m "1.IH"(3)[OF True refl _ _ m] upt
        by (subst sma_forEach.simps) (simp add: smoothed_at_def)
    qed
  qed
qed

lemma calculateSMADataset_map:
  "calculateSMADataset dataset = Inr (map (smoothed_at dataset) [0..<length dataset])"
  by (simp add: calculateSMADataset_def sma_forEach_map)

lemma nth_ramp: "k < n \<Longrightarrow> ramp n ! k = \<lparr>x = Date (1800000 * int k), y = Num (50 + 2 * real k)\<rparr>"
  by (simp add: ramp_def)

lemma length_ramp [simp]: "length (ramp n) = n"
  by (simp add: ramp_def)

text \<open>
  Claim C7. For every series, \<open>calculateSMADataset\<close> returns without an exception a series
  of the same length with the same timestamp at every position; for a series of length at
  least one the point at position 0 is the input's point at position 0, and the empty
  series gives the empty series.
\<close>

theorem smooth_shape:
  "\<exists>sma. calculateSMADataset dataset = Inr sma \<and> length sma = length dataset \<and>
     (\<forall>i < length dataset. x (sma ! i) = x (dataset ! i)) \<and>
     (0 < length dataset \<longrightarrow> sma ! 0 = dataset ! 0) \<and>
     (dataset = [] \<longrightarrow> sma = [])"
proof -
  let ?sma = "map (smoothed_at dataset) [0..<length dataset]"
  have "\<forall>i < length dataset. x (?sma ! i) = x (dataset ! i)"
    by (simp add: smoothed_at_def)
  moreover have "0 < length dataset \<longrightarrow> ?sma ! 0 = dataset ! 0"
    by (simp add: smoothed_at_def)
  ultimately show ?thesis
    by (simp add: calculateSMADataset_map)
qed

theorem smooth_shape_witness:
  "\<exists>sma. calculateSMADataset (ramp 3) = Inr sma \<and> length sma = 3 \<and>
     x (sma ! 0) = Date 0 \<and> x (sma ! 1) = Date 1800000 \<and> x (sma ! 2) = Date 3600000 \<and>
     sma ! 0 = \<lparr>x = Date 0, y = Num 50\<rparr>"
proof -
  obtain sma where s: "calculateSMADataset (ramp 3) = Inr sma" "length sma = length (ramp 3)"
    "\<forall>i < length (ramp 3). x (sma ! i) = x (ramp 3 ! i)"
    "0 < length (ramp 3) \<longrightarrow> sma ! 0 = ramp 3 ! 0"
    using smooth_shape[of "ramp 3"] by blast
  then show ?thesis by (simp add: nth_ramp)
qed





section \<open>Properties of the scale breaks\<close>

lemma valid_dateE: "valid_date d \<Longrightarrow> (\<And>t. d = Date t \<Longrightarrow> \<bar>t\<bar> \<le> maxTime \<Longrightarrow> P) \<Longrightarrow> P"
  by (cases d) simp_all

lemma trunc_of_int [simp]: "trunc (real_of_int t) = t"
  by (simp add: trunc_def)

text \<open>
  One step of the loop on two samples with timestamps: the comparison is the comparison of
  the gap, and both ends of the break are inside the range of time values, since they lie
  between the two timestamps.
\<close>

lemma pair_step:
  assumes va: "valid_date (x a)" and vb: "valid_date (x b)"
  shows "jgt (jsub (getTime (x b)) (getTime (x a))) maxInterval = big_gap (a, b)"
    and "big_gap (a, b) \<Longrightarrow>
      \<lparr>startValue = newDate (jadd (getTime (x a)) (Num (real (3 * sampleInterval * 1000)))),
       endValue = newDate (jsub (getTime (x b)) (Num (real (3 * sampleInterval * 1000)))),
       type = ''wavy'', spacing = 1\<rparr> = break_of (a, b)"
proof -
  from va obtain ta where ta: "x a = Date ta" "\<bar>ta\<bar> \<le> maxTime" by (rule valid_dateE)
  from vb obtain tb where tb: "x b = Date tb" "\<bar>tb\<bar> \<le> maxTime" by (rule valid_dateE)
  have gap: "big_gap (a, b) = (tb - ta > 18000000)"
    by (simp add: big_gap_def timestamp_def ta tb sampleInterval_def)
  have d: "jsub (getTime (x b)) (getTime (x a)) = Num (real_of_int (tb - ta))"
    by (simp add: jsub_def ta tb)
  have m: "maxInterval = Num (real_of_int 18000000)"
    by (simp add: maxInterval_def sampleInterval_def)
  show "jgt (jsub (getTime (x b)) (getTime (x a))) maxInterval = big_gap (a, b)"
    unfolding gap d m by (simp only: jgt.simps of_int_less_iff)
  assume "big_gap (a, b)"
  then have g: "tb - ta > 18000000" using gap by simp
  have s: "jadd (getTime (x a)) (Num (real (3 * sampleInterval * 1000))) = Num (real_of_int (ta + 5400000))"
    by (simp add: ta sampleInterval_def)
  have e: "jsub (getTime (x b)) (Num (real (3 * sampleInterval * 1000))) = Num (real_of_int (tb - 5400000))"
    by (simp add: tb sampleInterval_def jsub_def)
  have rs: "\<bar>ta + 5400000\<bar> \<le> maxTime" and re: "\<bar>tb - 5400000\<bar> \<le> maxTime"
    using g ta(2) tb(2) by linarith+
  have "newDate (Num (real_of_int (ta + 5400000))) = Date (ta + 5400000)"
    using rs unfolding newDate.simps trunc_of_int by (simp only: flip: of_int_abs) (simp)
  moreover have "newDate (Num (real_of_int (tb - 5400000))) = Date (tb - 5400000)"
    using re unfolding newDate.simps trunc_of_int by (simp only: flip: of_int_abs) (simp)
  ultimately show "\<lparr>startValue = newDate (jadd (getTime (x a)) (Num (real (3 * sampleInterval * 1000)))),
       endValue = newDate (jsub (getTime (x b)) (Num (real (3 * sampleInterval * 1000)))),
       type = ''wavy'', spacing = 1\<rparr> = break_of (a, b)"
    unfolding s e by (simp add: break_of_def timestamp_def ta tb sampleInterval_def)
qed

lemma xbreaks_forEach_spec:
  "timestamped data \<Longrightarrow>
   xbreaks_forEach data index bs
     = Inr (bs @ map break_of (filter big_gap (zip (drop index data) (drop (index + 1) data))))"
proof (induction data index bs rule: xbreaks_forEach.induct)
  case (1 data index bs)
  note ts = "1.prems"
  consider (finished) "length data \<le> index" | (final) "index + 1 = length data"
    | (pair) "index + 1 < length data" by linarith
  then show ?case
  proof cases
    case finished
    then show ?thesis by (subst xbreaks_forEach.simps) simp
  next
    case final
    then have lt: "index < length data" by simp
    have ne: "\<not> int index \<noteq> int (length data) - 1" using final by simp
    have "xbreaks_forEach data index bs = xbreaks_forEach data (index + 1) bs"
      using lt ne by (subst xbreaks_forEach.simps) (simp add: Let_def)
    also have "\<dots> = Inr (bs @ map break_of
        (filter big_gap (zip (drop (index + 1) data) (drop (index + 1 + 1) data))))"
      using "1.IH"(3)[OF lt refl ne ts] .
    finally show ?thesis using final by simp
  next
    case pair
    then have lt: "index < length data" by simp
    have ne: "int index \<noteq> int (length data) - 1" using pair by simp
    let ?d = "data ! index" and ?n = "data ! (index + 1)"
    have e: "elem_at data (int index + 1) = Some ?n"
      using elem_at_in[of "index + 1" data] pair by (simp add: add.commute)
    have v: "valid_date (x ?d)" "valid_date (x ?n)"
      using ts pair lt by (simp_all add: timestamped_def list_all_length)
    have z: "zip (drop index data) (drop (index + 1) data)
             = (?d, ?n) # zip (drop (index + 1) data) (drop (index + 1 + 1) data)"
      using pair lt by (simp add: Cons_nth_drop_Suc[symmetric])
    show ?thesis
    proof (cases "big_gap (?d, ?n)")
      case True
      then have g: "jgt (jsub (getTime (x ?n)) (getTime (x ?d))) maxInterval"
        using pair_step(1)[OF v] by simp
      have "xbreaks_forEach data index bs
            = xbreaks_forEach data (index + 1) (bs @ [break_of (?d, ?n)])"
        using lt ne e g pair_step(2)[OF v True]
        by (subst xbreaks_forEach.simps) (simp add: Let_def)
      also have "\<dots> = Inr ((bs @ [break_of (?d, ?n)]) @ map break_of
          (filter big_gap (zip (drop (index + 1) data) (drop (index + 1 + 1) data))))"
        using "1.IH"(1)[OF lt refl ne e g ts] pair_step(2)[OF v True] by simp
      finally show ?thesis unfolding z using True by simp
    next
      case False
      then have g: "\<not> jgt (jsub (getTime (x ?n)) (getTime (x ?d))) maxInterval"
        using pair_step(1)[OF v] by simp
      have "xbreaks_forEach data index bs
            = xbreaks_forEach data (index + 1) bs"
        using lt ne e g by (subst xbreaks_forEach.simps) (simp add: Let_def)
      also have "\<dots> = Inr (bs @ map break_of
          (filter big_gap (zip (drop (index + 1) data) (drop (index + 1 + 1) data))))"
        using "1.IH"(2)[OF lt refl ne e g ts] .
      finally show ?thesis unfolding z using False by simp
    qed
  qed
qed

lemma getXBreaks_findBreaks: "timestamped data \<Longrightarrow> getXBreaks data = Inr (findBreaks data)"
  by (simp add: getXBreaks_def xbreaks_forEach_spec findBreaks_def adjacent_pairs_def drop_Suc)

lemma strictly_increasing_ramp: "n \<le> 100 \<Longrightarrow> strictly_increasing (ramp n)"
  by (auto simp: strictly_increasing_def timestamped_def list_all_length nth_ramp maxTime_def
      sorted_wrt_iff_nth_less timestamp_def)

text \<open>
  Claim C3. For every series strictly increasing by timestamp, \<open>getXBreaks\<close> returns, for
  each adjacent pair \<open>(a, b)\<close> whose gap exceeds ten sample intervals, exactly one break from
  \<open>a\<close>'s timestamp plus three sample intervals to \<open>b\<close>'s timestamp minus three sample
  intervals, in the order of the series and without merging. A series of length below two
  gives no break, nor does a series whose adjacent gaps are all at most ten sample
  intervals; two points exactly eleven sample intervals apart give exactly one break.
\<close>

theorem getXBreaks_gaps:
  assumes "strictly_increasing data"
  shows "getXBreaks data = Inr (map break_of (filter big_gap (adjacent_pairs data))) \<and>
         (length data < 2 \<longrightarrow> getXBreaks data = Inr []) \<and>
         ((\<forall>p \<in> set (adjacent_pairs data).
             timestamp (snd p) - timestamp (fst p) \<le> 10 * int sampleInterval * 1000) \<longrightarrow>
            getXBreaks data = Inr []) \<and>
         (\<forall>p0 p1. data = [p0, p1] \<and> timestamp p1 - timestamp p0 = 11 * int sampleInterval * 1000 \<longrightarrow>
            getXBreaks data =
              Inr [\<lparr>startValue = Date (timestamp p0 + 3 * int sampleInterval * 1000),
                    endValue = Date (timestamp p1 - 3 * int sampleInterval * 1000),
                    type = ''wavy'', spacing = 1\<rparr>])"
proof -
  have eq: "getXBreaks data = Inr (map break_of (filter big_gap (adjacent_pairs data)))"
    using assms getXBreaks_findBreaks[of data]
    by (simp add: strictly_increasing_def findBreaks_def)
  have short: "length data < 2 \<longrightarrow> adjacent_pairs data = []"
    by (cases data) (simp_all add: adjacent_pairs_def)
  have small: "(\<forall>p \<in> set (adjacent_pairs data).
             timestamp (snd p) - timestamp (fst p) \<le> 10 * int sampleInterval * 1000) \<longrightarrow>
          filter big_gap (adjacent_pairs data) = []"
    by (auto simp: filter_empty_conv big_gap_def)
  have two: "\<forall>p0 p1. data = [p0, p1] \<and>
          timestamp p1 - timestamp p0 = 11 * int sampleInterval * 1000 \<longrightarrow>
          map break_of (filter big_gap (adjacent_pairs data)) = [break_of (p0, p1)]"
    by (simp add: adjacent_pairs_def big_gap_def sampleInterval_def)
  show ?thesis
    unfolding eq using short small two by (simp add: break_of_def)
qed

theorem getXBreaks_gaps_witness:
  "strictly_increasing gap11 \<and>
   getXBreaks gap11 =
     Inr [\<lparr>startValue = Date 5400000, endValue = Date 14400000, type = ''wavy'', spacing = 1\<rparr>] \<and>
   strictly_increasing (ramp 3) \<and> getXBreaks (ramp 3) = Inr [] \<and>
   strictly_increasing (ramp 1) \<and> getXBreaks (ramp 1) = Inr []"
proof -
  have a: "strictly_increasing gap11"
    by (simp add: strictly_increasing_def timestamped_def gap11_def maxTime_def timestamp_def)
  have b: "strictly_increasing (ramp 3)" "strictly_increasing (ramp 1)"
    by (simp_all add: strictly_increasing_ramp)
  have two: "gap11 = [gap11 ! 0, gap11 ! 1] \<and>
      timestamp (gap11 ! 1) - timestamp (gap11 ! 0) = 11 * int sampleInterval * 1000"
    by (simp add: gap11_def timestamp_def sampleInterval_def)
  have uni: "\<forall>p \<in> set (adjacent_pairs (ramp 3)).
      timestamp (snd p) - timestamp (fst p) \<le> 10 * int sampleInterval * 1000"
    by (simp add: adjacent_pairs_def ramp_def timestamp_def sampleInterval_def upt_rec)
  have "getXBreaks gap11 =
     Inr [\<lparr>startValue = Date 5400000, endValue = Date 14400000, type = ''wavy'', spacing = 1\<rparr>]"
    using getXBreaks_gaps[OF a, THEN conjunct2, THEN conjunct2, THEN conjunct2, rule_format, OF two]
    by (simp add: gap11_def timestamp_def sampleInterval_def)
  moreover have "getXBreaks (ramp 3) = Inr []"
    using getXBreaks_gaps[OF b(1), THEN conjunct2, THEN conjunct2, THEN conjunct1] uni by blast
  moreover have "getXBreaks (ramp 1) = Inr []"
    using getXBreaks_gaps[OF b(2), THEN conjunct2, THEN conjunct1, rule_format] by simp
  ultimately show ?thesis using a b by simp
qed

section \<open>Properties of the parsing and of the chart update\<close>





lemma digit_not_special:
  "isDigit c \<Longrightarrow> \<not> isWhiteSpace c \<and> c \<noteq> CHR ''-'' \<and> c \<noteq> CHR ''+'' \<and> c \<noteq> CHR ''.''
     \<and> c \<noteq> CHR ''I'' \<and> c \<noteq> CHR ''x'' \<and> c \<noteq> CHR ''X''"
  unfolding isDigit_def isWhiteSpace_def by (elim disjE | simp)+



lemma digits_prefix:
  assumes "list_all isDigit ip"
  shows "takeWhile isDigit (ip @ (if fp = [] then [] else CHR ''.'' # fp)) = ip"
    and "dropWhile isDigit (ip @ (if fp = [] then [] else CHR ''.'' # fp))
           = (if fp = [] then [] else CHR ''.'' # fp)"
  using assms digit_not_special[of "CHR ''.''"]
  by (auto simp: list_all_iff takeWhile_append2 dropWhile_append2)




lemma each_reading_map:
  "each_reading parseDate data (tempData, humidityData)
     = (tempData @ tempData_of parseDate data, humidityData @ humidityData_of parseDate data)"
  by (induction data arbitrary: tempData humidityData)
     (simp_all add: tempData_of_def humidityData_of_def)

lemma xbreaks_forEach_total: "\<exists>r. xbreaks_forEach data index bs = Inr r"
proof (induction data index bs rule: xbreaks_forEach.induct)
  case (1 data index bs)
  show ?case
  proof (cases "index < length data")
    case False
    then show ?thesis by (subst xbreaks_forEach.simps) simp
  next
    case lt: True
    show ?thesis
    proof (cases "int index \<noteq> int (length data) - 1")
      case False
      then show ?thesis
        using lt "1.IH"(3)[OF lt refl False]
        by (subst xbreaks_forEach.simps) (simp add: Let_def)
    next
      case ne: True
      then have "index + 1 < length data" using lt by linarith
      then have e: "elem_at data (int index + 1) = Some (data ! (index + 1))"
        using elem_at_in[of "index + 1" data] by (simp add: add.commute)
      show ?thesis
      proof (cases "jgt (jsub (getTime (x (data ! (index + 1)))) (getTime (x (data ! index)))) maxInterval")
        case True
        then show ?thesis
          using lt ne e "1.IH"(1)[OF lt refl ne e True]
          by (subst xbreaks_forEach.simps) (simp add: Let_def)
      next
        case False
        then show ?thesis
          using lt ne e "1.IH"(2)[OF lt refl ne e False]
          by (subst xbreaks_forEach.simps) (simp add: Let_def)
      qed
    qed
  qed
qed

lemma getXBreaks_total: "\<exists>r. getXBreaks data = Inr r"
  by (simp add: getXBreaks_def xbreaks_forEach_total)

lemma jsum_NaN: "NaN \<in> set vs \<Longrightarrow> jsum vs = NaN"
proof (induction vs)
  case Nil
  then show ?case by simp
next
  case (Cons v vs)
  then show ?case by (cases v) auto
qed

lemma mean_NaN: "NaN \<in> set vs \<Longrightarrow> mean vs = NaN"
  by (simp add: mean_def jsum_NaN)

lemma window_mem: "lo \<le> k \<Longrightarrow> k \<le> hi \<Longrightarrow> y (dataset ! k) \<in> set (window dataset lo hi)"
  unfolding window_def set_map by (rule imageI) auto

lemma smoothed_at_NaN: "y (dataset ! k) = NaN \<Longrightarrow> y (smoothed_at dataset k) = NaN"
proof -
  assume n: "y (dataset ! k) = NaN"
  consider "k = 0" | "0 < k" "k < 12" | "12 \<le> k" by linarith
  then show ?thesis
  proof cases
    case 1
    then show ?thesis using n by (simp add: smoothed_at_def)
  next
    case 2
    then have "NaN \<in> set (window dataset 1 k)" using window_mem[of 1 k k dataset] n by simp
    then show ?thesis using 2 by (simp add: smoothed_at_def mean_NaN)
  next
    case 3
    then have "NaN \<in> set (window dataset (k - 11) k)"
      using window_mem[of "k - 11" k k dataset] n by simp
    then show ?thesis using 3 by (simp add: smoothed_at_def mean_NaN)
  qed
qed

lemma updateChart_callback_result:
  assumes "length (dataPoints c) = 4"
  shows "\<exists>tempSMA humiditySMA breaks.
           calculateSMADataset (tempData_of parseDate data) = Inr tempSMA \<and>
           calculateSMADataset (humidityData_of parseDate data) = Inr humiditySMA \<and>
           getXBreaks (tempData_of parseDate data) = Inr breaks \<and>
           updateChart_callback parseDate c data =
             Inr (c\<lparr>customBreaks := Some breaks,
                    dataPoints := [Some (tempData_of parseDate data),
                                   Some (humidityData_of parseDate data),
                                   Some tempSMA, Some humiditySMA],
                    renders := renders c + 1\<rparr>)"
proof -
  obtain breaks where b: "getXBreaks (tempData_of parseDate data) = Inr breaks"
    using getXBreaks_total by blast
  obtain d0 d1 d2 d3 where d: "dataPoints c = [d0, d1, d2, d3]"
    using assms by (auto simp: length_Suc_conv numeral_eq_Suc)
  show ?thesis
    by (simp add: updateChart_callback_def each_reading_map calculateSMADataset_map b
        bind_err_def set_dataPoints_def d)
qed

lemmas parse_defs = parseFloat_def parseInt_def signOf_def isWhiteSpace_def isDigit_def
  isHexDigit_def radixVal_def digitVal_def pow10_def exponentPart_def

lemma decimal_string_decimal:
  assumes "decimal_parts sg ip fp"
  shows "decimal_string (decimal sg ip fp)"
proof -
  from assms have dig: "list_all isDigit ip" "list_all isDigit fp" and ne: "ip \<noteq> []"
    by (simp_all add: decimal_parts_def)
  from ne dig(1) obtain a ip' where ip: "ip = a # ip'" "isDigit a"
    by (cases ip) auto
  note d = digit_not_special[OF ip(2)]
  from assms consider "sg = ''''" | "sg = ''-''" | "sg = ''+''"
    by (auto simp: decimal_parts_def)
  then have "snd (signOf (decimal sg ip fp)) = ip @ (if fp = [] then [] else CHR ''.'' # fp)"
    by cases (simp_all add: decimal_def ip signOf_def d)
  then show ?thesis
    unfolding decimal_string_def Let_def
    using ne dig(2) by (simp add: digits_prefix[OF dig(1)])
qed

text \<open>
  Claim C8, as stated: every record whose numeric field is malformed gets the value NaN.
  It fails on a field that starts with a numeral: \<open>parseFloat\<close> reads \<open>12abc\<close> as 12, and
  12 goes into the raw series, the smoothed series and the chart.
\<close>


theorem updateChart_prefix_counterexample:
  "\<not> decimal_string (temp prefixed_reading) \<and>
   updateChart_callback epoch newChart [prefixed_reading] =
     Inr \<lparr>customBreaks = Some [],
          dataPoints = [Some [\<lparr>x = Date 0, y = Num 12\<rparr>], Some [\<lparr>x = Date 0, y = Num 40\<rparr>],
                        Some [\<lparr>x = Date 0, y = Num 12\<rparr>], Some [\<lparr>x = Date 0, y = Num 40\<rparr>]],
          renders = 1\<rparr>"
proof -
  have "\<not> decimal_string (temp prefixed_reading)"
    by (simp add: decimal_string_def prefixed_reading_def signOf_def isDigit_def)
  moreover have "parseFloat ''12abc'' = Num 12" "parseInt ''40'' = Num 40"
    by (simp_all add: parse_defs)
  then have "updateChart_callback epoch newChart [prefixed_reading] =
     Inr \<lparr>customBreaks = Some [],
          dataPoints = [Some [\<lparr>x = Date 0, y = Num 12\<rparr>], Some [\<lparr>x = Date 0, y = Num 40\<rparr>],
                        Some [\<lparr>x = Date 0, y = Num 12\<rparr>], Some [\<lparr>x = Date 0, y = Num 40\<rparr>]],
          renders = 1\<rparr>"
    by (simp add: updateChart_callback_def prefixed_reading_def epoch_def newChart_def
        bind_err_def set_dataPoints_def calculateSMADataset_def sma_forEach.simps
        getXBreaks_def xbreaks_forEach.simps)
  ultimately show ?thesis by simp
qed

text \<open>
  Claim C8, amended. The callback never throws. For every record whose temperature
  (humidity) field has no numeral at its head, so that \<open>parseFloat\<close> (\<open>parseInt\<close>) returns
  NaN, the raw series has NaN at the record's position, the smoothed series has NaN at the
  same position, and both go to the chart unchanged.
\<close>


theorem updateChart_failed_parse:
  assumes "length (dataPoints c) = 4" and "k < length data"
  shows "\<exists>tempData humidityData tempSMA humiditySMA breaks.
     updateChart_callback parseDate c data =
       Inr (c\<lparr>customBreaks := Some breaks,
              dataPoints := [Some tempData, Some humidityData, Some tempSMA, Some humiditySMA],
              renders := renders c + 1\<rparr>) \<and>
     calculateSMADataset tempData = Inr tempSMA \<and>
     calculateSMADataset humidityData = Inr humiditySMA \<and>
     (parseFloat (temp (data ! k)) = NaN \<longrightarrow> y (tempData ! k) = NaN \<and> y (tempSMA ! k) = NaN) \<and>
     (parseInt (humidity (data ! k)) = NaN \<longrightarrow>
        y (humidityData ! k) = NaN \<and> y (humiditySMA ! k) = NaN)"
proof -
  let ?t = "tempData_of parseDate data" and ?h = "humidityData_of parseDate data"
  obtain tempSMA humiditySMA breaks where r:
    "calculateSMADataset ?t = Inr tempSMA" "calculateSMADataset ?h = Inr humiditySMA"
    "updateChart_callback parseDate c data =
       Inr (c\<lparr>customBreaks := Some breaks,
              dataPoints := [Some ?t, Some ?h, Some tempSMA, Some humiditySMA],
              renders := renders c + 1\<rparr>)"
    using updateChart_callback_result[OF assms(1), of parseDate data] by blast
  have len: "k < length ?t" "k < length ?h"
    using assms(2) by (simp_all add: tempData_of_def humidityData_of_def)
  have sm: "tempSMA ! k = smoothed_at ?t k" "humiditySMA ! k = smoothed_at ?h k"
    using r(1,2) len unfolding calculateSMADataset_map by auto
  have yt: "y (?t ! k) = parseFloat (temp (data ! k))"
    and yh: "y (?h ! k) = parseInt (humidity (data ! k))"
    using assms(2) by (simp_all add: tempData_of_def humidityData_of_def)
  have "parseFloat (temp (data ! k)) = NaN \<longrightarrow> y (?t ! k) = NaN \<and> y (tempSMA ! k) = NaN"
    using yt sm(1) smoothed_at_NaN[of ?t k] by simp
  moreover have "parseInt (humidity (data ! k)) = NaN \<longrightarrow>
      y (?h ! k) = NaN \<and> y (humiditySMA ! k) = NaN"
    using yh sm(2) smoothed_at_NaN[of ?h k] by simp
  ultimately show ?thesis using r by blast
qed

theorem updateChart_failed_parse_witness:
  "length (dataPoints newChart) = 4 \<and> (1::nat) < length [fine_reading, failed_reading] \<and>
   parseFloat (temp failed_reading) = NaN \<and> parseInt (humidity failed_reading) = NaN \<and>
   (\<exists>tempData humidityData tempSMA humiditySMA breaks.
      updateChart_callback epoch newChart [fine_reading, failed_reading] =
        Inr \<lparr>customBreaks = Some breaks,
             dataPoints = [Some tempData, Some humidityData, Some tempSMA, Some humiditySMA],
             renders = 1\<rparr> \<and>
      y (tempData ! 1) = NaN \<and> y (tempSMA ! 1) = NaN \<and>
      y (humidityData ! 1) = NaN \<and> y (humiditySMA ! 1) = NaN)"
proof -
  have h: "length (dataPoints newChart) = 4" "(1::nat) < length [fine_reading, failed_reading]"
    by (simp_all add: newChart_def)
  have p: "parseFloat (temp ([fine_reading, failed_reading] ! 1)) = NaN"
    "parseInt (humidity ([fine_reading, failed_reading] ! 1)) = NaN"
    by (simp_all add: failed_reading_def parse_defs)
  show ?thesis
    using updateChart_failed_parse[OF h, of epoch] p h
    by (simp add: newChart_def) blast
qed



section \<open>Properties of the restart and shutdown handlers\<close>

text \<open>
  The retry loop: after \<open>k\<close> rejected requests and a resolved one within the budget it
  returns the response; after a budget of rejected requests it rethrows. It waits five
  seconds after each rejected request but the last of the budget.
\<close>


lemma fetchRetry_resolves:
  "(\<forall>j<k. server (a + j) = Rejected) \<Longrightarrow> server (a + k) = Resolved r \<Longrightarrow> int k < n \<Longrightarrow>
   fetchRetry url server a n p
     = Some (p\<lparr>trace := trace p @ concat (replicate k [Fetch url, Sleep 5000]) @ [Fetch url]\<rparr>,
             Inr r)"
proof (induction k arbitrary: a n p)
  case 0
  then show ?case by (subst fetchRetry.simps) (simp add: fetch_def)
next
  case (Suc k)
  have rej: "server a = Rejected" using Suc.prems(1)[rule_format, of 0] by simp
  have n1: "n \<noteq> 1" using Suc.prems(3) by simp
  have "fetchRetry url server (a + 1) (n - 1) (sleep 5000 (fetch url p))
     = Some ((sleep 5000 (fetch url p))\<lparr>trace := trace (sleep 5000 (fetch url p))
                @ concat (replicate k [Fetch url, Sleep 5000]) @ [Fetch url]\<rparr>, Inr r)"
  proof (rule Suc.IH)
    show "\<forall>j<k. server (a + 1 + j) = Rejected"
      using Suc.prems(1) by (metis Suc_less_eq add.assoc plus_1_eq_Suc)
    show "server (a + 1 + k) = Resolved r" using Suc.prems(2) by (simp add: add.commute add.left_commute)
    show "int k < n - 1" using Suc.prems(3) by simp
  qed
  then show ?case
    using rej n1 by (subst fetchRetry.simps) (simp add: fetch_def sleep_def)
qed

lemma fetchRetry_exhausts:
  "(\<forall>j\<le>m. server (a + j) = Rejected) \<Longrightarrow> n = int m + 1 \<Longrightarrow>
   fetchRetry url server a n p
     = Some (p\<lparr>trace := trace p @ concat (replicate m [Fetch url, Sleep 5000]) @ [Fetch url]\<rparr>,
             Inl NetworkError)"
proof (induction m arbitrary: a n p)
  case 0
  then show ?case by (subst fetchRetry.simps) (simp add: fetch_def)
next
  case (Suc m)
  have rej: "server a = Rejected" using Suc.prems(1)[rule_format, of 0] by simp
  have n1: "n \<noteq> 1" using Suc.prems(2) by simp
  have "fetchRetry url server (a + 1) (n - 1) (sleep 5000 (fetch url p))
     = Some ((sleep 5000 (fetch url p))\<lparr>trace := trace (sleep 5000 (fetch url p))
                @ concat (replicate m [Fetch url, Sleep 5000]) @ [Fetch url]\<rparr>, Inl NetworkError)"
  proof (rule Suc.IH)
    show "\<forall>j\<le>m. server (a + 1 + j) = Rejected"
      using Suc.prems(1) by (metis Suc_le_mono add.assoc plus_1_eq_Suc)
    show "n - 1 = int m + 1" using Suc.prems(2) by simp
  qed
  then show ?case
    using rej n1 by (subst fetchRetry.simps) (simp add: fetch_def sleep_def)
qed

lemma fetchRetry_extends:
  "0 < n \<Longrightarrow> \<exists>es res. fetchRetry url server a n p = Some (p\<lparr>trace := trace p @ es\<rparr>, res)"
proof (induction "nat n" arbitrary: a n p)
  case 0
  then show ?case by simp
next
  case (Suc m)
  show ?case
  proof (cases "server a")
    case (Resolved r)
    then have "fetchRetry url server a n p = Some (p\<lparr>trace := trace p @ [Fetch url]\<rparr>, Inr r)"
      by (subst fetchRetry.simps) (simp add: fetch_def)
    then show ?thesis by blast
  next
    case Rejected
    show ?thesis
    proof (cases "n = 1")
      case True
      then have "fetchRetry url server a n p
          = Some (p\<lparr>trace := trace p @ [Fetch url]\<rparr>, Inl NetworkError)"
        using Rejected by (subst fetchRetry.simps) (simp add: fetch_def)
      then show ?thesis by blast
    next
      case False
      then have "m = nat (n - 1)" "0 < n - 1" using Suc.hyps(2) Suc.prems by linarith+
      from Suc.hyps(1)[OF this, of "a + 1" "sleep 5000 (fetch url p)"]
      obtain es res where
        "fetchRetry url server (a + 1) (n - 1) (sleep 5000 (fetch url p))
           = Some ((sleep 5000 (fetch url p))\<lparr>trace := trace (sleep 5000 (fetch url p)) @ es\<rparr>, res)"
        by blast
      then have "fetchRetry url server a n p
           = Some (p\<lparr>trace := trace p @ ([Fetch url, Sleep 5000] @ es)\<rparr>, res)"
        using Rejected False by (subst fetchRetry.simps) (simp add: fetch_def sleep_def)
      then show ?thesis by blast
    qed
  qed
qed

lemma attempts_polls: "attempts (polls k) = k + 1"
  by (induction k) (simp_all add: attempts_def polls_def)

lemma attempts_append: "attempts (es @ fs) = attempts es + attempts fs"
  by (simp add: attempts_def)

lemma restartHandler_reconnects:
  assumes "k < 10" "\<forall>j<k. server j = Rejected" "server k = Resolved (Response (Some body))"
  shows "restartHandler (Resolved (Response (Some ack))) server p
     = Some (showDashboard body
          ((hideDashboard ack p)\<lparr>trace := trace p @ [Fetch ''restart'', Sleep 3000] @ polls k\<rparr>))"
proof -
  let ?p2 = "sleep 3000 (hideDashboard ack (fetch ''restart'' p))"
  have "fetchRetry ''test'' server 0 10 ?p2
     = Some (?p2\<lparr>trace := trace ?p2 @ polls k\<rparr>, Inr (Response (Some body)))"
    unfolding polls_def using assms by (intro fetchRetry_resolves) simp_all
  then show ?thesis
    by (simp add: restartHandler_def fetch_def sleep_def hideDashboard_def)
qed

lemma restartHandler_gives_up:
  assumes "\<forall>j<10. server j = Rejected"
  shows "restartHandler (Resolved (Response (Some ack))) server p
     = Some (hideDashboard fatalMessage
          (p\<lparr>trace := trace p @ [Fetch ''restart'', Sleep 3000] @ polls 9\<rparr>))"
proof -
  let ?p2 = "sleep 3000 (hideDashboard ack (fetch ''restart'' p))"
  have "fetchRetry ''test'' server 0 10 ?p2
     = Some (?p2\<lparr>trace := trace ?p2 @ polls 9\<rparr>, Inl NetworkError)"
    unfolding polls_def using assms by (intro fetchRetry_exhausts) simp_all
  then show ?thesis
    by (simp add: restartHandler_def fetch_def sleep_def hideDashboard_def)
qed

lemma restartHandler_extends:
  "\<exists>q rest new. restartHandler restart server p = Some q \<and>
     trace q = trace p @ Fetch ''restart'' # rest \<and> intervals q = intervals p @ new"
proof (cases restart)
  case Rejected
  then show ?thesis by (simp add: restartHandler_def fetch_def)
next
  case (Resolved response)
  show ?thesis
  proof (cases "text_of response")
    case None
    then show ?thesis using Resolved by (simp add: restartHandler_def fetch_def)
  next
    case (Some msg)
    let ?p2 = "sleep 3000 (hideDashboard msg (fetch ''restart'' p))"
    obtain es res where f: "fetchRetry ''test'' server 0 10 ?p2 = Some (?p2\<lparr>trace := trace ?p2 @ es\<rparr>, res)"
      using fetchRetry_extends[of 10 "''test''" server 0 ?p2] by auto
    show ?thesis
    proof (cases res)
      case (Inl err)
      then show ?thesis using Resolved Some f
        by (simp add: restartHandler_def fetch_def sleep_def hideDashboard_def)
    next
      case (Inr response2)
      then show ?thesis using Resolved Some f
        by (cases "text_of response2")
           (simp_all add: restartHandler_def fetch_def sleep_def hideDashboard_def
             showDashboard_def updateChart_def Let_def)
    qed
  qed
qed

lemma shutdownHandler_extends:
  "\<exists>rest. trace (shutdownHandler shutdown p) = trace p @ Fetch ''shutdown'' # rest \<and>
     intervals (shutdownHandler shutdown p) = intervals p"
  by (cases shutdown; cases "text_of (case shutdown of Resolved r \<Rightarrow> r)")
     (simp_all add: shutdownHandler_def fetch_def hideDashboard_def)

lemma step_intervals: "\<exists>q new. step e p = Some q \<and> intervals q = intervals p @ new"
proof (cases e)
  case Load
  then show ?thesis
    by (simp add: onload_def showDashboard_def updateChart_def sleep_def Let_def)
next
  case (ClickRestart restart server)
  then show ?thesis using restartHandler_extends[of restart server p] by auto
next
  case (ClickShutdown shutdown)
  then show ?thesis using shutdownHandler_extends[of shutdown p] by auto
next
  case (TimerFires k)
  then show ?thesis by (simp add: timerFires_def updateChart_def)
qed

lemma run_intervals: "\<exists>q new. run evs p = Some q \<and> intervals q = intervals p @ new"
proof (induction evs arbitrary: p)
  case Nil
  then show ?case by simp
next
  case (Cons e evs)
  obtain q new where q: "step e p = Some q" "intervals q = intervals p @ new"
    using step_intervals by blast
  obtain q' new' where "run evs q = Some q'" "intervals q' = intervals q @ new'"
    using Cons.IH by blast
  then show ?case using q by simp
qed

lemma refreshDelay_value: "refreshDelay = 450000"
proof -
  have e: "real sampleInterval / 4 = 450" by (simp add: sampleInterval_def)
  show ?thesis unfolding refreshDelay_def e by simp
qed



text \<open>
  Claim C4. After the restart is acknowledged and the settle delay of three seconds, the
  handler polls the liveness endpoint at most ten times, with a wait of five seconds
  between two requests. If the first \<open>k < 10\<close> requests are rejected and the next one
  resolves (with a readable text), the handler returns after exactly \<open>k + 1\<close> requests,
  shows the dashboard again and requests the data. If all of the first ten requests are
  rejected, it returns after exactly ten requests with the dashboard hidden and the
  message that asks for a manual reset.
\<close>


theorem restart_polling:
  assumes "restart = Resolved (Response (Some ack))"
  shows "(\<forall>k body. k < 10 \<and> (\<forall>j<k. server j = Rejected) \<and>
            server k = Resolved (Response (Some body)) \<longrightarrow>
            (\<exists>p'. restartHandler restart server p = Some p' \<and>
               trace p' = trace p @ [Fetch ''restart'', Sleep 3000] @ polls k
                  @ [GetJSON ''data.json''] @ (if body = [] then [] else [Sleep 3000]) \<and>
               attempts (polls k) = k + 1 \<and>
               dashboard_shown p' \<and> (body \<noteq> [] \<longrightarrow> message p' = []))) \<and>
         ((\<forall>j<10. server j = Rejected) \<longrightarrow>
            (\<exists>p'. restartHandler restart server p = Some p' \<and>
               trace p' = trace p @ [Fetch ''restart'', Sleep 3000] @ polls 9 \<and>
               attempts (polls 9) = 10 \<and>
               dashboard_hidden p' \<and> message p' = ''<p>'' @ fatalMessage @ ''</p>''))"
proof (intro conjI allI impI)
  fix k body
  assume "k < 10 \<and> (\<forall>j<k. server j = Rejected) \<and> server k = Resolved (Response (Some body))"
  then have "restartHandler restart server p
     = Some (showDashboard body
          ((hideDashboard ack p)\<lparr>trace := trace p @ [Fetch ''restart'', Sleep 3000] @ polls k\<rparr>))"
    unfolding assms using restartHandler_reconnects by blast
  then show "\<exists>p'. restartHandler restart server p = Some p' \<and>
               trace p' = trace p @ [Fetch ''restart'', Sleep 3000] @ polls k
                  @ [GetJSON ''data.json''] @ (if body = [] then [] else [Sleep 3000]) \<and>
               attempts (polls k) = k + 1 \<and>
               dashboard_shown p' \<and> (body \<noteq> [] \<longrightarrow> message p' = [])"
    by (simp add: showDashboard_def updateChart_def sleep_def hideDashboard_def
        dashboard_shown_def attempts_polls Let_def)
next
  assume "\<forall>j<10. server j = Rejected"
  then have "restartHandler restart server p
     = Some (hideDashboard fatalMessage
          (p\<lparr>trace := trace p @ [Fetch ''restart'', Sleep 3000] @ polls 9\<rparr>))"
    unfolding assms by (rule restartHandler_gives_up)
  then show "\<exists>p'. restartHandler restart server p = Some p' \<and>
               trace p' = trace p @ [Fetch ''restart'', Sleep 3000] @ polls 9 \<and>
               attempts (polls 9) = 10 \<and>
               dashboard_hidden p' \<and> message p' = ''<p>'' @ fatalMessage @ ''</p>''"
    by (simp add: hideDashboard_def dashboard_hidden_def attempts_polls)
qed

theorem restart_polling_witness:
  "restartAck = Resolved (Response (Some ''WetSpec is restarting. Please wait...'')) \<and>
   (9::nat) < 10 \<and> slow 8 = Rejected \<and>
   slow 9 = Resolved (Response (Some ''Welcome to WetSpec.'')) \<and>
   (\<exists>p'. restartHandler restartAck slow (onload page0) = Some p' \<and>
      attempts (trace p') = 10 \<and> dashboard_shown p' \<and> message p' = []) \<and>
   dead 9 = Rejected \<and>
   (\<exists>p'. restartHandler restartAck dead (onload page0) = Some p' \<and>
      attempts (trace p') = 10 \<and> dashboard_hidden p' \<and>
      message p' = ''<p>'' @ fatalMessage @ ''</p>'')"
proof -
  have a: "restartAck = Resolved (Response (Some ''WetSpec is restarting. Please wait...''))"
    by (simp add: restartAck_def)
  have s: "(9::nat) < 10 \<and> (\<forall>j<9. slow j = Rejected) \<and>
      slow 9 = Resolved (Response (Some ''Welcome to WetSpec.''))"
    by (simp add: slow_def)
  have d: "\<forall>j<10. dead j = Rejected" by (simp add: dead_def)
  have t: "attempts (trace (onload page0)) = 0"
    by (simp add: onload_def showDashboard_def updateChart_def sleep_def page0_def attempts_def)
  from restart_polling[OF a, of slow "onload page0", THEN conjunct1, rule_format, OF s]
  obtain p1 where p1: "restartHandler restartAck slow (onload page0) = Some p1"
    "trace p1 = trace (onload page0) @ [Fetch ''restart'', Sleep 3000] @ polls 9
        @ [GetJSON ''data.json''] @ [Sleep 3000]"
    "dashboard_shown p1" "message p1 = []"
    by auto
  from restart_polling[OF a, of dead "onload page0", THEN conjunct2, THEN mp, OF d]
  obtain p2 where p2: "restartHandler restartAck dead (onload page0) = Some p2"
    "trace p2 = trace (onload page0) @ [Fetch ''restart'', Sleep 3000] @ polls 9"
    "dashboard_hidden p2" "message p2 = ''<p>'' @ fatalMessage @ ''</p>''"
    by auto
  have "attempts (trace p1) = 10" "attempts (trace p2) = 10"
    unfolding p1(2) p2(2) attempts_append t attempts_polls by (simp_all add: attempts_def)
  then show ?thesis using a s d p1 p2 by (simp add: slow_def dead_def)
qed

text \<open>
  Claim C2, as stated: no refresh tick happens while the state is not Running. It fails
  after a shutdown: the dashboard is hidden, the timer registered at load is still there,
  and its tick requests the data again.
\<close>


theorem shutdown_tick_counterexample:
  "run [Load, ClickShutdown shutdownAck, TimerFires 0] page0 =
     Some \<lparr>chartContainer = False, controlButton = False, title = False,
           message = ''<p>WetSpec is shutting down. Goodbye!</p>'',
           intervals = [450000], handlers = True,
           trace = [GetJSON ''data.json'', Sleep 3000, Fetch ''shutdown'', GetJSON ''data.json'']\<rparr>"
  by (simp add: page0_def onload_def showDashboard_def updateChart_def sleep_def Let_def
      refreshDelay_value shutdownAck_def shutdownHandler_def fetch_def hideDashboard_def
      timerFires_def)

text \<open>
  Claim C2, amended. The script never stops the periodic refresh. No event removes a
  registered timer, and in every state of the page, dashboard shown or hidden, the tick of
  a registered timer requests the data. The shutdown and the restart handler send their
  command first, with every timer still registered; without an acknowledgement they do
  nothing more, and the dashboard is hidden only once the acknowledgement has arrived.
\<close>


theorem refresh_never_suppressed:
  assumes "run evs p = Some p'"
  shows "(\<exists>new. intervals p' = intervals p @ new) \<and>
         (\<forall>k<length (intervals p').
            trace (timerFires k p') = trace p' @ [GetJSON ''data.json'']) \<and>
         (\<exists>rest. trace (shutdownHandler shutdown p') = trace p' @ Fetch ''shutdown'' # rest \<and>
            intervals (shutdownHandler shutdown p') = intervals p') \<and>
         (\<exists>q rest new. restartHandler restart server p' = Some q \<and>
            trace q = trace p' @ Fetch ''restart'' # rest \<and>
            intervals q = intervals p' @ new) \<and>
         shutdownHandler Rejected p' = fetch ''shutdown'' p' \<and>
         restartHandler Rejected server p' = Some (fetch ''restart'' p')"
proof -
  have "\<exists>new. intervals p' = intervals p @ new"
    using run_intervals[of evs p] assms by auto
  moreover have "\<forall>k<length (intervals p').
      trace (timerFires k p') = trace p' @ [GetJSON ''data.json'']"
    by (simp add: timerFires_def updateChart_def)
  moreover have "shutdownHandler Rejected p' = fetch ''shutdown'' p'"
    "restartHandler Rejected server p' = Some (fetch ''restart'' p')"
    by (simp_all add: shutdownHandler_def restartHandler_def)
  ultimately show ?thesis
    using shutdownHandler_extends[of shutdown p'] restartHandler_extends[of restart server p']
    by blast
qed

theorem refresh_never_suppressed_witness:
  "run [Load, ClickRestart restartAck dead] page0 =
     Some (hideDashboard fatalMessage
       ((onload page0)\<lparr>trace := trace (onload page0) @ [Fetch ''restart'', Sleep 3000] @ polls 9\<rparr>)) \<and>
   intervals (hideDashboard fatalMessage
       ((onload page0)\<lparr>trace := trace (onload page0) @ [Fetch ''restart'', Sleep 3000] @ polls 9\<rparr>))
     = [450000] \<and>
   trace (timerFires 0 (hideDashboard fatalMessage
       ((onload page0)\<lparr>trace := trace (onload page0) @ [Fetch ''restart'', Sleep 3000] @ polls 9\<rparr>)))
     = trace (onload page0) @ [Fetch ''restart'', Sleep 3000] @ polls 9 @ [GetJSON ''data.json'']"
proof -
  let ?q = "hideDashboard fatalMessage
       ((onload page0)\<lparr>trace := trace (onload page0) @ [Fetch ''restart'', Sleep 3000] @ polls 9\<rparr>)"
  have h: "handlers (onload page0)" by (simp add: onload_def)
  have r: "run [Load, ClickRestart restartAck dead] page0 = Some ?q"
    using restartHandler_gives_up[of dead _ "onload page0"] h
    by (simp add: restartAck_def dead_def)
  have i: "intervals ?q = [450000]"
    by (simp add: hideDashboard_def onload_def showDashboard_def updateChart_def sleep_def Let_def
        page0_def refreshDelay_value)
  have "\<forall>k<length (intervals ?q). trace (timerFires k ?q) = trace ?q @ [GetJSON ''data.json'']"
    using refresh_never_suppressed[OF r] by blast
  then have "trace (timerFires 0 ?q) = trace ?q @ [GetJSON ''data.json'']"
    unfolding i by simp
  then show ?thesis using r i by (simp add: hideDashboard_def)
qed




section \<open>Properties of the functions on the store\<close>

text \<open>
  What a store holds at the addresses it has stays readable in every store that extends it.
\<close>


lemma all_some_map: "all_some (map Some ws) = Some ws"
  by (induction ws) simp_all

lemma all_some_SomeD: "all_some vs = Some ws \<Longrightarrow> vs = map Some ws"
proof (induction vs arbitrary: ws)
  case Nil
  then show ?case by simp
next
  case (Cons v vs)
  then show ?case by (cases v) (auto split: option.splits)
qed

lemma all_some_eq: "all_some vs = Some ws \<longleftrightarrow> vs = map Some ws"
  using all_some_map all_some_SomeD by blast

lemma prefix_length: "take (length h0) h = h0 \<Longrightarrow> length h0 \<le> length h"
  by (drule arg_cong[where f = length]) simp

lemma lookup_prefix:
  assumes "take (length h0) h = h0" "lookup h0 a = Some ob"
  shows "lookup h a = Some ob"
proof -
  from assms(2) have a: "a < length h0" "h0 ! a = ob"
    by (auto simp: lookup_def split: if_splits)
  have "h ! a = take (length h0) h ! a" using a(1) by simp
  then show ?thesis
    using a assms(1) prefix_length[OF assms(1)] by (simp add: lookup_def)
qed

lemma read_date_prefix:
  "take (length h0) h = h0 \<Longrightarrow> read_date h0 a = Some d \<Longrightarrow> read_date h a = Some d"
  unfolding read_date_def
  by (auto split: option.splits obj.splits dest: lookup_prefix)

lemma read_datum_prefix:
  assumes "take (length h0) h = h0" "read_datum h0 a = Some d"
  shows "read_datum h a = Some d"
proof -
  from assms(2) obtain xa yv dt where
    l: "lookup h0 a = Some (DatumObj xa yv)" and r: "read_date h0 xa = Some dt"
    and d: "d = \<lparr>x = dt, y = yv\<rparr>"
    by (auto simp: read_datum_def split: option.splits obj.splits)
  show ?thesis
    using lookup_prefix[OF assms(1) l] read_date_prefix[OF assms(1) r] d
    by (simp add: read_datum_def)
qed

lemma read_break_prefix:
  assumes "take (length h0) h = h0" "read_break h0 a = Some b"
  shows "read_break h a = Some b"
proof -
  from assms(2) obtain s e t sp ds de where
    l: "lookup h0 a = Some (BreakObj s e t sp)"
    and r: "read_date h0 s = Some ds" "read_date h0 e = Some de"
    and b: "b = \<lparr>startValue = ds, endValue = de, type = t, spacing = sp\<rparr>"
    by (auto simp: read_break_def split: option.splits obj.splits)
  show ?thesis
    using lookup_prefix[OF assms(1) l] read_date_prefix[OF assms(1) r(1)]
      read_date_prefix[OF assms(1) r(2)] b
    by (simp add: read_break_def)
qed

lemma read_series_prefix:
  assumes "take (length h0) h = h0" "read_series h0 a = Some ds"
  shows "read_series h a = Some ds"
proof -
  from assms(2) obtain rs where
    l: "lookup h0 a = Some (ArrayObj rs)" and m: "map (read_datum h0) rs = map Some ds"
    by (auto simp: read_series_def all_some_eq split: option.splits obj.splits)
  have "map (read_datum h) rs = map Some ds"
  proof (rule nth_equalityI)
    show "length (map (read_datum h) rs) = length (map Some ds)"
      using m by (metis length_map)
    fix i assume "i < length (map (read_datum h) rs)"
    then have i: "i < length rs" by simp
    then have "read_datum h0 (rs ! i) = Some (ds ! i)"
      using m by (metis length_map nth_map)
    then show "map (read_datum h) rs ! i = map Some ds ! i"
      using read_datum_prefix[OF assms(1)] i m by (metis length_map nth_map)
  qed
  then show ?thesis
    using lookup_prefix[OF assms(1) l] by (simp add: read_series_def all_some_eq)
qed

lemma read_breaks_prefix:
  assumes "take (length h0) h = h0" "read_breaks h0 a = Some bs"
  shows "read_breaks h a = Some bs"
proof -
  from assms(2) obtain rs where
    l: "lookup h0 a = Some (ArrayObj rs)" and m: "map (read_break h0) rs = map Some bs"
    by (auto simp: read_breaks_def all_some_eq split: option.splits obj.splits)
  have "map (read_break h) rs = map Some bs"
  proof (rule nth_equalityI)
    show "length (map (read_break h) rs) = length (map Some bs)"
      using m by (metis length_map)
    fix i assume "i < length (map (read_break h) rs)"
    then have i: "i < length rs" by simp
    then have "read_break h0 (rs ! i) = Some (bs ! i)"
      using m by (metis length_map nth_map)
    then show "map (read_break h) rs ! i = map Some bs ! i"
      using read_break_prefix[OF assms(1)] i m by (metis length_map nth_map)
  qed
  then show ?thesis
    using lookup_prefix[OF assms(1) l] by (simp add: read_breaks_def all_some_eq)
qed

lemma lookup_update:
  "lookup (h[b := ob]) a = (if a = b \<and> b < length h then Some ob else lookup h a)"
  by (simp add: lookup_def)

lemma read_date_update:
  "lookup h b = Some (ArrayObj r0) \<Longrightarrow> read_date (h[b := ArrayObj r]) a = read_date h a"
  by (auto simp: read_date_def lookup_update)

lemma read_datum_update:
  "lookup h b = Some (ArrayObj r0) \<Longrightarrow> read_datum (h[b := ArrayObj r]) a = read_datum h a"
  by (auto simp: read_datum_def lookup_update read_date_update[of h b r0] split: option.splits obj.splits)

lemma read_break_update:
  "lookup h b = Some (ArrayObj r0) \<Longrightarrow> read_break (h[b := ArrayObj r]) a = read_break h a"
  by (auto simp: read_break_def lookup_update read_date_update[of h b r0] split: option.splits obj.splits)

lemma series_view:
  assumes "read_series h a = Some ds"
  shows "\<exists>rs. lookup h a = Some (ArrayObj rs) \<and> length rs = length ds \<and>
           (\<forall>i<length ds. read_datum h (rs ! i) = Some (ds ! i))"
proof -
  from assms obtain rs where
    l: "lookup h a = Some (ArrayObj rs)" and m: "map (read_datum h) rs = map Some ds"
    by (auto simp: read_series_def all_some_eq split: option.splits obj.splits)
  have len: "length rs = length ds" using m by (metis length_map)
  have "read_datum h (rs ! i) = Some (ds ! i)" if "i < length ds" for i
    using m that len by (metis nth_map)
  with l len show ?thesis by blast
qed

lemma datum_view:
  assumes "read_datum h a = Some d"
  shows "\<exists>xa. lookup h a = Some (DatumObj xa (y d)) \<and> read_date h xa = Some (x d)"
  using assms by (auto simp: read_datum_def split: option.splits obj.splits)

lemma breaks_view:
  assumes "read_breaks h a = Some bs"
  shows "\<exists>rs. lookup h a = Some (ArrayObj rs) \<and> map (read_break h) rs = map Some bs"
  using assms by (auto simp: read_breaks_def all_some_eq split: option.splits obj.splits)

lemma get_y_read:
  assumes "read_series h dataset = Some ds"
  shows "(case array_get h dataset j of Inl e \<Rightarrow> Inl e | Inr r \<Rightarrow> get_y h r)
         = (case elem_at ds j of None \<Rightarrow> Inl TypeError | Some d \<Rightarrow> Inr (y d))"
proof -
  from series_view[OF assms] obtain rs where
    rs: "lookup h dataset = Some (ArrayObj rs)" "length rs = length ds"
    "\<And>i. i < length ds \<Longrightarrow> read_datum h (rs ! i) = Some (ds ! i)"
    by blast
  show ?thesis
  proof (cases "0 \<le> j \<and> j < int (length ds)")
    case False
    then show ?thesis using rs(1,2) by (auto simp: array_get_def elem_at_def get_y_def)
  next
    case True
    then have "nat j < length ds" by linarith
    from datum_view[OF rs(3)[OF this]] obtain xa where
      "lookup h (rs ! nat j) = Some (DatumObj xa (y (ds ! nat j)))"
      by blast
    then show ?thesis using True rs(1,2) by (simp add: array_get_def elem_at_def get_y_def)
  qed
qed

lemma sma_loop_h_read:
  "read_series h dataset = Some ds \<Longrightarrow>
   sma_loop_h h dataset point numPoints i tot = sma_loop ds point numPoints i tot"
proof (induction ds point numPoints i tot rule: sma_loop.induct)
  case (1 ds point numPoints i tot)
  note rd = get_y_read[OF "1.prems", of "int point - int i"]
  show ?case
  proof (cases "i < numPoints")
    case False
    then show ?thesis
      by (subst sma_loop_h.simps, subst sma_loop.simps) simp
  next
    case True
    show ?thesis
    proof (cases "elem_at ds (int point - int i)")
      case None
      then show ?thesis
        using True rd
        by (subst sma_loop_h.simps, subst sma_loop.simps) (auto split: sum.splits)
    next
      case (Some d)
      then show ?thesis
        using True rd "1.IH"[OF True Some "1.prems"]
        by (subst sma_loop_h.simps, subst sma_loop.simps) (auto split: sum.splits)
    qed
  qed
qed

lemma simpleMovingAverage_h_read:
  "read_series h dataset = Some ds \<Longrightarrow>
   simpleMovingAverage_h h dataset point numPoints = simpleMovingAverage ds point numPoints"
  by (simp add: simpleMovingAverage_h_def simpleMovingAverage_def sma_loop_h_read)

lemma take_append_self: "take (length h) (h @ g) = h"
  by simp

lemma push_read_series:
  assumes "read_series h b = Some acc" "read_datum h r = Some v"
  shows "\<exists>h1. push h b r = Inr h1 \<and> read_series h1 b = Some (acc @ [v]) \<and>
           take b h1 = take b h"
proof -
  from assms(1) obtain ars where
    l: "lookup h b = Some (ArrayObj ars)" and m: "map (read_datum h) ars = map Some acc"
    by (auto simp: read_series_def all_some_eq split: option.splits obj.splits)
  let ?h1 = "h[b := ArrayObj (ars @ [r])]"
  have b: "b < length h" using l by (auto simp: lookup_def split: if_splits)
  have "read_datum ?h1 = read_datum h"
    by (rule ext) (rule read_datum_update[OF l])
  then have "map (read_datum ?h1) (ars @ [r]) = map Some (acc @ [v])"
    using m assms(2) by simp
  then have "read_series ?h1 b = Some (acc @ [v])"
    using b by (simp add: read_series_def lookup_update all_some_eq)
  then show ?thesis using l by (simp add: push_def)
qed

lemma push_read_breaks:
  assumes "read_breaks h b = Some acc" "read_break h r = Some v"
  shows "\<exists>h1. push h b r = Inr h1 \<and> read_breaks h1 b = Some (acc @ [v]) \<and>
           take b h1 = take b h"
proof -
  from assms(1) obtain ars where
    l: "lookup h b = Some (ArrayObj ars)" and m: "map (read_break h) ars = map Some acc"
    by (auto simp: read_breaks_def all_some_eq split: option.splits obj.splits)
  let ?h1 = "h[b := ArrayObj (ars @ [r])]"
  have b: "b < length h" using l by (auto simp: lookup_def split: if_splits)
  have "read_break ?h1 = read_break h"
    by (rule ext) (rule read_break_update[OF l])
  then have "map (read_break ?h1) (ars @ [r]) = map Some (acc @ [v])"
    using m assms(2) by simp
  then have "read_breaks ?h1 b = Some (acc @ [v])"
    using b by (simp add: read_breaks_def lookup_update all_some_eq)
  then show ?thesis using l by (simp add: push_def)
qed

lemma read_new_datum:
  assumes "read_date h xa = Some dt"
  shows "read_datum (h @ [DatumObj xa v]) (length h) = Some \<lparr>x = dt, y = v\<rparr>"
  using read_date_prefix[OF take_append_self assms, of "[DatumObj xa v]"]
  by (simp add: read_datum_def lookup_def)

lemma read_new_date: "read_date (h @ [DateObj d]) (length h) = Some d"
  by (simp add: read_date_def lookup_def)

lemma sma_callback_h_step:
  assumes rd: "read_series h0 dataset = Some ds"
    and inv: "take (length h0) h = h0"
    and acc: "read_series h (length h0) = Some acc"
    and idx: "index < length ds"
    and d: "read_datum h d = Some (ds ! index)"
  shows "\<exists>h1. sma_callback_h h dataset (length h0) d index = Inr h1 \<and>
           take (length h0) h1 = h0 \<and>
           read_series h1 (length h0) = Some (acc @ [smoothed_at ds index])"
proof (cases "index = 0")
  case True
  from push_read_series[OF acc d] obtain h1 where
    "push h (length h0) d = Inr h1" "read_series h1 (length h0) = Some (acc @ [ds ! index])"
    "take (length h0) h1 = take (length h0) h"
    by blast
  then show ?thesis using True inv by (simp add: sma_callback_h_def smoothed_at_def)
next
  case False
  let ?w = "if index < 12 then index else 12"
  let ?v = "mean (window ds (index + 1 - ?w) index)"
  have rdh: "read_series h dataset = Some ds" using read_series_prefix[OF inv rd] .
  have sm: "simpleMovingAverage_h h dataset index ?w = Inr ?v"
    using simpleMovingAverage_mean[of ?w index ds] idx
    by (simp add: simpleMovingAverage_h_read[OF rdh])
  from datum_view[OF d] obtain xa where
    xa: "lookup h d = Some (DatumObj xa (y (ds ! index)))" "read_date h xa = Some (x (ds ! index))"
    by blast
  let ?h' = "h @ [DatumObj xa ?v]"
  have acc': "read_series ?h' (length h0) = Some acc"
    using read_series_prefix[OF take_append_self acc] .
  have new: "read_datum ?h' (length h) = Some \<lparr>x = x (ds ! index), y = ?v\<rparr>"
    using read_new_datum[OF xa(2)] .
  from push_read_series[OF acc' new] obtain h1 where h1:
    "push ?h' (length h0) (length h) = Inr h1"
    "read_series h1 (length h0) = Some (acc @ [\<lparr>x = x (ds ! index), y = ?v\<rparr>])"
    "take (length h0) h1 = take (length h0) ?h'"
    by blast
  have "take (length h0) ?h' = h0" using inv prefix_length[OF inv] by simp
  moreover have "smoothed_at ds index = \<lparr>x = x (ds ! index), y = ?v\<rparr>"
    using False by (auto simp: smoothed_at_def)
  ultimately show ?thesis
    using False sm xa(1) h1
    by (simp add: sma_callback_h_def get_x_def alloc_def)
qed

lemma sma_forEach_h_read:
  assumes rd: "read_series h0 dataset = Some ds"
  shows "take (length h0) h = h0 \<Longrightarrow> read_series h (length h0) = Some acc \<Longrightarrow>
         \<exists>h'. sma_forEach_h h dataset (length ds) index (length h0) = Inr h' \<and>
           take (length h0) h' = h0 \<and>
           read_series h' (length h0) = Some (acc @ map (smoothed_at ds) [index..<length ds])"
proof (induction "length ds - index" arbitrary: h acc index)
  case 0
  then have "\<not> index < length ds" "[index..<length ds] = []" by simp_all
  then show ?case using "0.prems" by (subst sma_forEach_h.simps) simp
next
  case (Suc n)
  then have idx: "index < length ds" by simp
  have rdh: "read_series h dataset = Some ds" using read_series_prefix[OF Suc.prems(1) rd] .
  from series_view[OF rdh] obtain rs where
    rs: "lookup h dataset = Some (ArrayObj rs)" "length rs = length ds"
    "read_datum h (rs ! index) = Some (ds ! index)"
    using idx by blast
  have get: "array_get h dataset (int index) = Inr (Some (rs ! index))"
    using rs(1,2) idx by (simp add: array_get_def elem_at_def)
  from sma_callback_h_step[OF rd Suc.prems(1) Suc.prems(2) idx rs(3)] obtain h1 where h1:
    "sma_callback_h h dataset (length h0) (rs ! index) index = Inr h1"
    "take (length h0) h1 = h0"
    "read_series h1 (length h0) = Some (acc @ [smoothed_at ds index])"
    by blast
  have "n = length ds - (index + 1)" using Suc.hyps(2) by simp
  from Suc.hyps(1)[OF this h1(2) h1(3)] obtain h' where
    "sma_forEach_h h1 dataset (length ds) (index + 1) (length h0) = Inr h'"
    "take (length h0) h' = h0"
    "read_series h' (length h0)
       = Some ((acc @ [smoothed_at ds index]) @ map (smoothed_at ds) [index + 1..<length ds])"
    by blast
  then show ?case
    using idx get h1(1) by (subst sma_forEach_h.simps) (simp add: upt_conv_Cons)
qed

lemma calculateSMADataset_h_read:
  assumes "read_series h dataset = Some ds"
  shows "\<exists>h' r sma. calculateSMADataset_h h dataset = Inr (h', r) \<and>
           calculateSMADataset ds = Inr sma \<and>
           take (length h) h' = h \<and> read_series h' r = Some sma"
proof -
  let ?h0 = "h @ [ArrayObj []]"
  have rd0: "read_series ?h0 dataset = Some ds"
    using read_series_prefix[OF take_append_self assms] .
  have emp: "read_series ?h0 (length h) = Some []"
    by (simp add: read_series_def lookup_def)
  from series_view[OF rd0] have len: "array_length ?h0 dataset = Inr (length ds)"
    by (auto simp: array_length_def)
  have rdh: "read_series h dataset = Some ds" by fact
  have "\<exists>h'. sma_forEach_h ?h0 dataset (length ds) 0 (length h) = Inr h' \<and>
           take (length h) h' = h \<and>
           read_series h' (length h) = Some ([] @ map (smoothed_at ds) [0..<length ds])"
    by (rule sma_forEach_h_read[OF rdh]) (simp_all add: emp)
  then show ?thesis
    using len by (auto simp: calculateSMADataset_h_def alloc_def calculateSMADataset_map)
qed

lemma xbreaks_forEach_unfold:
  assumes "index < length ds"
  shows "xbreaks_forEach ds index bs = xbreaks_forEach ds (index + 1) (bs @ break_step ds index)"
proof (cases "index + 1 < length ds")
  case False
  then have "\<not> int index \<noteq> int (length ds) - 1" using assms by linarith
  then show ?thesis
    using assms False by (subst xbreaks_forEach.simps) (simp add: break_step_def Let_def)
next
  case True
  then have ne: "int index \<noteq> int (length ds) - 1" by linarith
  have e: "elem_at ds (int index + 1) = Some (ds ! (index + 1))"
    using elem_at_in[of "index + 1" ds] True by (simp add: add.commute)
  show ?thesis
    using assms True ne e by (subst xbreaks_forEach.simps) (simp add: break_step_def Let_def)
qed

lemma xbreaks_forEach_steps:
  "xbreaks_forEach ds index bs = Inr (bs @ concat (map (break_step ds) [index..<length ds]))"
proof (induction "length ds - index" arbitrary: index bs)
  case 0
  then show ?case by (subst xbreaks_forEach.simps) simp
next
  case (Suc n)
  then have idx: "index < length ds" and n: "n = length ds - (index + 1)" by simp_all
  show ?case
    unfolding xbreaks_forEach_unfold[OF idx] Suc.hyps(1)[OF n]
    using idx by (simp add: upt_conv_Cons)
qed

lemma read_new_break:
  assumes "read_date h s = Some ds" "read_date h e = Some de"
  shows "read_break (h @ [BreakObj s e t sp]) (length h)
           = Some \<lparr>startValue = ds, endValue = de, type = t, spacing = sp\<rparr>"
  using read_date_prefix[OF take_append_self assms(1), of "[BreakObj s e t sp]"]
    read_date_prefix[OF take_append_self assms(2), of "[BreakObj s e t sp]"]
  by (simp add: read_break_def lookup_def)

lemma getTime_h_read: "read_date h a = Some d \<Longrightarrow> getTime_h h a = Inr (getTime d)"
  by (auto simp: read_date_def getTime_h_def split: option.splits obj.splits)

lemma get_x_read:
  "read_datum h a = Some d \<Longrightarrow> \<exists>xa. get_x h (Some a) = Inr xa \<and> read_date h xa = Some (x d)"
  using datum_view[of h a d] by (auto simp: get_x_def)

lemma xbreaks_callback_h_step:
  assumes rd: "read_series h0 data = Some ds"
    and inv: "take (length h0) h = h0"
    and acc: "read_breaks h (length h0) = Some acc"
    and idx: "index < length ds"
    and d: "read_datum h d = Some (ds ! index)"
  shows "\<exists>h1. xbreaks_callback_h h data (length h0) d index = Inr h1 \<and>
           take (length h0) h1 = h0 \<and>
           read_breaks h1 (length h0) = Some (acc @ break_step ds index)"
proof -
  have rdh: "read_series h data = Some ds" using read_series_prefix[OF inv rd] .
  from series_view[OF rdh] obtain rs where
    rs: "lookup h data = Some (ArrayObj rs)" "length rs = length ds"
    "\<forall>i<length ds. read_datum h (rs ! i) = Some (ds ! i)"
    by blast
  have len: "array_length h data = Inr (length ds)"
    using rs(1,2) by (simp add: array_length_def)
  show ?thesis
  proof (cases "index + 1 < length ds")
    case False
    then have "\<not> int index \<noteq> int (length ds) - 1" using idx by linarith
    then show ?thesis
      using len inv acc False by (simp add: xbreaks_callback_h_def break_step_def)
  next
    case True
    then have ne: "int index \<noteq> int (length ds) - 1" by linarith
    have get: "array_get h data (int index + 1) = Inr (Some (rs ! (index + 1)))"
      using rs(1,2) True elem_at_in[of "index + 1" rs]
      by (simp add: array_get_def add.commute)
    from rs(3) True have "read_datum h (rs ! (index + 1)) = Some (ds ! (index + 1))" by blast
    from get_x_read[OF this] obtain nx where
      nx: "get_x h (Some (rs ! (index + 1))) = Inr nx" "read_date h nx = Some (x (ds ! (index + 1)))"
      by blast
    from get_x_read[OF d] obtain dx where
      dx: "get_x h (Some d) = Inr dx" "read_date h dx = Some (x (ds ! index))"
      by blast
    note tn = getTime_h_read[OF nx(2)] and td = getTime_h_read[OF dx(2)]
    let ?tn = "getTime (x (ds ! (index + 1)))" and ?td = "getTime (x (ds ! index))"
    show ?thesis
    proof (cases "jgt (jsub ?tn ?td) maxInterval")
      case False
      then show ?thesis
        using len ne get nx(1) dx(1) tn td inv acc True
        by (simp add: xbreaks_callback_h_def break_step_def)
    next
      case gap: True
      let ?s = "newDate (jadd ?td (Num (real (3 * sampleInterval * 1000))))"
      let ?e = "newDate (jsub ?tn (Num (real (3 * sampleInterval * 1000))))"
      let ?h1 = "h @ [DateObj ?s]"
      let ?h2 = "?h1 @ [DateObj ?e]"
      let ?h3 = "?h2 @ [BreakObj (length h) (length ?h1) ''wavy'' 1]"
      have s: "read_date ?h2 (length h) = Some ?s"
        using read_date_prefix[OF take_append_self read_new_date[of h ?s]] .
      have e: "read_date ?h2 (length ?h1) = Some ?e"
        using read_new_date[of ?h1 ?e] .
      have new: "read_break ?h3 (length ?h2)
          = Some \<lparr>startValue = ?s, endValue = ?e, type = ''wavy'', spacing = 1\<rparr>"
        using read_new_break[OF s e] .
      have "take (length h) ?h3 = h" by simp
      then have acc3: "read_breaks ?h3 (length h0) = Some acc"
        using read_breaks_prefix[OF _ acc] by blast
      from push_read_breaks[OF acc3 new] obtain h4 where h4:
        "push ?h3 (length h0) (length ?h2) = Inr h4"
        "read_breaks h4 (length h0)
           = Some (acc @ [\<lparr>startValue = ?s, endValue = ?e, type = ''wavy'', spacing = 1\<rparr>])"
        "take (length h0) h4 = take (length h0) ?h3"
        by blast
      have "take (length h0) ?h3 = h0" using inv prefix_length[OF inv] by simp
      then show ?thesis
        using len ne get nx(1) dx(1) tn td gap True h4
        by (simp add: xbreaks_callback_h_def break_step_def alloc_def)
    qed
  qed
qed

lemma xbreaks_forEach_h_read:
  assumes rd: "read_series h0 data = Some ds"
  shows "take (length h0) h = h0 \<Longrightarrow> read_breaks h (length h0) = Some acc \<Longrightarrow>
         \<exists>h'. xbreaks_forEach_h h data (length ds) index (length h0) = Inr h' \<and>
           take (length h0) h' = h0 \<and>
           read_breaks h' (length h0) = Some (acc @ concat (map (break_step ds) [index..<length ds]))"
proof (induction "length ds - index" arbitrary: h acc index)
  case 0
  then have "\<not> index < length ds" "[index..<length ds] = []" by simp_all
  then show ?case using "0.prems" by (subst xbreaks_forEach_h.simps) simp
next
  case (Suc n)
  then have idx: "index < length ds" by simp
  have rdh: "read_series h data = Some ds" using read_series_prefix[OF Suc.prems(1) rd] .
  from series_view[OF rdh] obtain rs where
    rs: "lookup h data = Some (ArrayObj rs)" "length rs = length ds"
    "read_datum h (rs ! index) = Some (ds ! index)"
    using idx by blast
  have get: "array_get h data (int index) = Inr (Some (rs ! index))"
    using rs(1,2) idx by (simp add: array_get_def elem_at_def)
  from xbreaks_callback_h_step[OF rd Suc.prems(1) Suc.prems(2) idx rs(3)] obtain h1 where h1:
    "xbreaks_callback_h h data (length h0) (rs ! index) index = Inr h1"
    "take (length h0) h1 = h0"
    "read_breaks h1 (length h0) = Some (acc @ break_step ds index)"
    by blast
  have "n = length ds - (index + 1)" using Suc.hyps(2) by simp
  from Suc.hyps(1)[OF this h1(2) h1(3)] obtain h' where
    "xbreaks_forEach_h h1 data (length ds) (index + 1) (length h0) = Inr h'"
    "take (length h0) h' = h0"
    "read_breaks h' (length h0)
       = Some ((acc @ break_step ds index) @ concat (map (break_step ds) [index + 1..<length ds]))"
    by blast
  then show ?case
    using idx get h1(1) by (subst xbreaks_forEach_h.simps) (simp add: upt_conv_Cons)
qed

lemma getXBreaks_h_read:
  assumes "read_series h data = Some ds"
  shows "\<exists>h' r bs. getXBreaks_h h data = Inr (h', r) \<and>
           getXBreaks ds = Inr bs \<and>
           take (length h) h' = h \<and> read_breaks h' r = Some bs"
proof -
  let ?h0 = "h @ [ArrayObj []]"
  have rd0: "read_series ?h0 data = Some ds"
    using read_series_prefix[OF take_append_self assms] .
  have emp: "read_breaks ?h0 (length h) = Some []"
    by (simp add: read_breaks_def lookup_def)
  from series_view[OF rd0] have len: "array_length ?h0 data = Inr (length ds)"
    by (auto simp: array_length_def)
  have rdh: "read_series h data = Some ds" by fact
  have "\<exists>h'. xbreaks_forEach_h ?h0 data (length ds) 0 (length h) = Inr h' \<and>
           take (length h) h' = h \<and>
           read_breaks h' (length h) = Some ([] @ concat (map (break_step ds) [0..<length ds]))"
    by (rule xbreaks_forEach_h_read[OF rdh]) (simp_all add: emp)
  then show ?thesis
    using len
    by (auto simp: getXBreaks_h_def alloc_def getXBreaks_def xbreaks_forEach_steps)
qed

text \<open>
  Claim C9. \<open>calculateSMADataset\<close> and \<open>getXBreaks\<close> are free of side effects. For
  every series in a store, each function returns, every object that existed before the
  call is unchanged after it (the call only adds objects, and writes only to the array it
  has made), so the input series reads the same; the result is the one of the function on
  values, and a second call on the same input returns a result with the same content, and
  leaves the first result as it is.
\<close>


theorem smooth_and_breaks_pure:
  assumes "read_series h dataset = Some ds"
  shows "(\<exists>h1 r1 h2 r2 sma.
            calculateSMADataset_h h dataset = Inr (h1, r1) \<and>
            calculateSMADataset_h h1 dataset = Inr (h2, r2) \<and>
            calculateSMADataset ds = Inr sma \<and>
            take (length h) h1 = h \<and> take (length h1) h2 = h1 \<and>
            read_series h1 dataset = Some ds \<and> read_series h2 dataset = Some ds \<and>
            read_series h1 r1 = Some sma \<and> read_series h2 r2 = Some sma \<and>
            read_series h2 r1 = Some sma) \<and>
         (\<exists>h1 r1 h2 r2 bs.
            getXBreaks_h h dataset = Inr (h1, r1) \<and>
            getXBreaks_h h1 dataset = Inr (h2, r2) \<and>
            getXBreaks ds = Inr bs \<and>
            take (length h) h1 = h \<and> take (length h1) h2 = h1 \<and>
            read_series h1 dataset = Some ds \<and> read_series h2 dataset = Some ds \<and>
            read_breaks h1 r1 = Some bs \<and> read_breaks h2 r2 = Some bs \<and>
            read_breaks h2 r1 = Some bs)"
proof
  from calculateSMADataset_h_read[OF assms] obtain h1 r1 sma where a:
    "calculateSMADataset_h h dataset = Inr (h1, r1)" "calculateSMADataset ds = Inr sma"
    "take (length h) h1 = h" "read_series h1 r1 = Some sma"
    by blast
  have in1: "read_series h1 dataset = Some ds" using read_series_prefix[OF a(3) assms] .
  from calculateSMADataset_h_read[OF in1] a(2) obtain h2 r2 where b:
    "calculateSMADataset_h h1 dataset = Inr (h2, r2)"
    "take (length h1) h2 = h1" "read_series h2 r2 = Some sma"
    by auto
  have "read_series h2 dataset = Some ds" "read_series h2 r1 = Some sma"
    using read_series_prefix[OF b(2) in1] read_series_prefix[OF b(2) a(4)] by simp_all
  then show "\<exists>h1 r1 h2 r2 sma.
            calculateSMADataset_h h dataset = Inr (h1, r1) \<and>
            calculateSMADataset_h h1 dataset = Inr (h2, r2) \<and>
            calculateSMADataset ds = Inr sma \<and>
            take (length h) h1 = h \<and> take (length h1) h2 = h1 \<and>
            read_series h1 dataset = Some ds \<and> read_series h2 dataset = Some ds \<and>
            read_series h1 r1 = Some sma \<and> read_series h2 r2 = Some sma \<and>
            read_series h2 r1 = Some sma"
    using a b in1 by blast
next
  from getXBreaks_h_read[OF assms] obtain h1 r1 bs where a:
    "getXBreaks_h h dataset = Inr (h1, r1)" "getXBreaks ds = Inr bs"
    "take (length h) h1 = h" "read_breaks h1 r1 = Some bs"
    by blast
  have in1: "read_series h1 dataset = Some ds" using read_series_prefix[OF a(3) assms] .
  from getXBreaks_h_read[OF in1] a(2) obtain h2 r2 where b:
    "getXBreaks_h h1 dataset = Inr (h2, r2)"
    "take (length h1) h2 = h1" "read_breaks h2 r2 = Some bs"
    by auto
  have "read_series h2 dataset = Some ds" "read_breaks h2 r1 = Some bs"
    using read_series_prefix[OF b(2) in1] read_breaks_prefix[OF b(2) a(4)] by simp_all
  then show "\<exists>h1 r1 h2 r2 bs.
            getXBreaks_h h dataset = Inr (h1, r1) \<and>
            getXBreaks_h h1 dataset = Inr (h2, r2) \<and>
            getXBreaks ds = Inr bs \<and>
            take (length h) h1 = h \<and> take (length h1) h2 = h1 \<and>
            read_series h1 dataset = Some ds \<and> read_series h2 dataset = Some ds \<and>
            read_breaks h1 r1 = Some bs \<and> read_breaks h2 r2 = Some bs \<and>
            read_breaks h2 r1 = Some bs"
    using a b in1 by blast
qed

theorem smooth_and_breaks_pure_witness:
  "read_series store0 4 = Some gap11 \<and>
   (\<exists>h1 r1 h2 r2.
      calculateSMADataset_h store0 4 = Inr (h1, r1) \<and>
      calculateSMADataset_h h1 4 = Inr (h2, r2) \<and>
      take 5 h1 = store0 \<and> read_series h2 4 = Some gap11 \<and>
      read_series h1 r1 = Some gap11 \<and> read_series h2 r2 = Some gap11) \<and>
   (\<exists>h1 r1 h2 r2.
      getXBreaks_h store0 4 = Inr (h1, r1) \<and>
      getXBreaks_h h1 4 = Inr (h2, r2) \<and>
      take 5 h1 = store0 \<and> read_series h2 4 = Some gap11 \<and>
      read_breaks h1 r1 =
        Some [\<lparr>startValue = Date 5400000, endValue = Date 14400000, type = ''wavy'', spacing = 1\<rparr>] \<and>
      read_breaks h2 r2 =
        Some [\<lparr>startValue = Date 5400000, endValue = Date 14400000, type = ''wavy'', spacing = 1\<rparr>])"
proof -
  have r: "read_series store0 4 = Some gap11"
    by (simp add: store0_def gap11_def read_series_def read_datum_def read_date_def lookup_def)
  have l: "length store0 = 5" by (simp add: store0_def)
  have s: "calculateSMADataset gap11 = Inr gap11"
    by (simp add: calculateSMADataset_def gap11_def sma_forEach.simps simpleMovingAverage_def
        sma_loop.simps elem_at_def)
  have b: "getXBreaks gap11 =
      Inr [\<lparr>startValue = Date 5400000, endValue = Date 14400000, type = ''wavy'', spacing = 1\<rparr>]"
    by (simp add: getXBreaks_def gap11_def xbreaks_forEach.simps elem_at_def jsub_def
        maxInterval_def sampleInterval_def maxTime_def trunc_def)
  from smooth_and_breaks_pure[OF r, THEN conjunct1] s l
  have "\<exists>h1 r1 h2 r2.
      calculateSMADataset_h store0 4 = Inr (h1, r1) \<and>
      calculateSMADataset_h h1 4 = Inr (h2, r2) \<and>
      take 5 h1 = store0 \<and> read_series h2 4 = Some gap11 \<and>
      read_series h1 r1 = Some gap11 \<and> read_series h2 r2 = Some gap11"
    by auto
  moreover from smooth_and_breaks_pure[OF r, THEN conjunct2] b l
  have "\<exists>h1 r1 h2 r2.
      getXBreaks_h store0 4 = Inr (h1, r1) \<and>
      getXBreaks_h h1 4 = Inr (h2, r2) \<and>
      take 5 h1 = store0 \<and> read_series h2 4 = Some gap11 \<and>
      read_breaks h1 r1 =
        Some [\<lparr>startValue = Date 5400000, endValue = Date 14400000, type = ''wavy'', spacing = 1\<rparr>] \<and>
      read_breaks h2 r2 =
        Some [\<lparr>startValue = Date 5400000, endValue = Date 14400000, type = ''wavy'', spacing = 1\<rparr>]"
    by auto
  ultimately show ?thesis using r by blast
qed

text \<open>
  The two results are different arrays with equal content. The first element of a smoothed
  series is the input's own point, not a copy: in the example the result holds the
  address 1.
\<close>

lemma store0_run:
  "calculateSMADataset_h store0 4 =
     Inr (store0 @ [ArrayObj [1, 6], DatumObj 2 (Num 52)], 5)"
  by (simp add: calculateSMADataset_h_def store0_def alloc_def array_length_def lookup_def
      sma_forEach_h.simps array_get_def elem_at_def sma_callback_h_def push_def
      simpleMovingAverage_h_def sma_loop_h.simps get_y_def get_x_def)

end
